theory Spec2Isabelle
  imports Complex_Main
begin

section \<open>Data model of the triangular grid slicer\<close>

text \<open>
  The embedding follows \<^verbatim>\<open>getAroundATriangularGrid.py\<close>. Vertex ids are
  natural numbers (Blender's vertex and edge indices are unsigned). Python floats are
  idealised as real numbers: the program only adds, subtracts, multiplies, takes square
  roots and compares them. Every Python exception the code can raise is a value of
  \<open>py_error\<close>; a function that can raise returns \<open>py_error + 'a\<close>.
\<close>

datatype py_error = IndexError | KeyError | AttributeError | ValueError

type_synonym vec3 = "real \<times> real \<times> real"

definition dot :: "vec3 \<Rightarrow> vec3 \<Rightarrow> real" where
  "dot a b = (case a of (a1, a2, a3) \<Rightarrow> case b of (b1, b2, b3) \<Rightarrow> a1 * b1 + a2 * b2 + a3 * b3)"

definition vsub :: "vec3 \<Rightarrow> vec3 \<Rightarrow> vec3" where
  "vsub a b = (case a of (a1, a2, a3) \<Rightarrow> case b of (b1, b2, b3) \<Rightarrow> (a1 - b1, a2 - b2, a3 - b3))"

text \<open>The part of a Blender vertex the program touches: its coordinates and its
  selection flag. An edge is the pair \<open>(edge.vertices[0], edge.vertices[1])\<close>.\<close>

record BpyVertex =
  co :: vec3
  select :: bool

type_synonym BpyEdge = "nat \<times> nat"

subsection \<open>Decimal rendering of a non-negative integer (Python's \<open>str\<close>)\<close>

definition digit_char :: "nat \<Rightarrow> char" where
  "digit_char d = ''0123456789'' ! d"

fun str_nat :: "nat \<Rightarrow> string" where
  "str_nat n = (if n < 10 then [digit_char n] else str_nat (n div 10) @ [digit_char (n mod 10)])"

declare str_nat.simps [simp del]

subsection \<open>Class \<open>Node\<close>\<close>

record Node =
  coordinates :: vec3
  neighboursIndices :: "nat list"
  visited :: bool
  sliceName :: string
  sliceSubSetName :: string
  rotatedZ :: real

definition Node_init :: "BpyVertex \<Rightarrow> vec3 \<Rightarrow> Node" where
  "Node_init bpyVertex npNormal =
     \<lparr> coordinates = co bpyVertex, neighboursIndices = [], visited = False,
       sliceName = [], sliceSubSetName = [], rotatedZ = dot (co bpyVertex) npNormal \<rparr>"

definition addNeighbourIndex :: "Node \<Rightarrow> nat \<Rightarrow> Node" where
  "addNeighbourIndex n i = n\<lparr>neighboursIndices := neighboursIndices n @ [i]\<rparr>"

definition markAsVisited :: "Node \<Rightarrow> Node" where
  "markAsVisited n = n\<lparr>visited := True\<rparr>"

definition setSliceName :: "Node \<Rightarrow> string \<Rightarrow> Node" where
  "setSliceName n nm = n\<lparr>sliceName := nm\<rparr>"

definition setSliceSubSetName :: "Node \<Rightarrow> string \<Rightarrow> Node" where
  "setSliceSubSetName n nm = n\<lparr>sliceSubSetName := nm\<rparr>"

subsection \<open>Class \<open>SliceSubSet\<close>\<close>

text \<open>
  The fields \<open>__sliceName\<close>, \<open>__sliceSubSetIndex\<close> and \<open>__ownName\<close> are assigned
  in the constructor only, the last one as \<open>self.nodeSubSetName()\<close>. The getter
  \<open>getOwnName\<close> therefore always returns what \<open>nodeSubSetName\<close> computes, and the
  model defines it so instead of carrying a third copy of the same string.
\<close>

record SliceSubSet =
  subSliceName :: string
  sliceSubSetIndex :: nat
  sliceSubSetNodes :: "nat list"
  initialNodeIndex :: nat
  reducedSlice :: "nat list"

definition nodeSubSetName :: "SliceSubSet \<Rightarrow> string" where
  "nodeSubSetName s = subSliceName s @ str_nat (sliceSubSetIndex s)"

definition getOwnName :: "SliceSubSet \<Rightarrow> string" where
  "getOwnName s = nodeSubSetName s"

definition SliceSubSet_init :: "Node \<Rightarrow> nat \<Rightarrow> nat \<Rightarrow> SliceSubSet" where
  "SliceSubSet_init initialNode initialNodeIdx subSetIndex =
     \<lparr> subSliceName = sliceName initialNode, sliceSubSetIndex = subSetIndex,
       sliceSubSetNodes = [], initialNodeIndex = initialNodeIdx, reducedSlice = [] \<rparr>"

definition addNode :: "SliceSubSet \<Rightarrow> nat \<Rightarrow> SliceSubSet" where
  "addNode s i = s\<lparr>sliceSubSetNodes := sliceSubSetNodes s @ [i]\<rparr>"

definition addToReducedSlice :: "SliceSubSet \<Rightarrow> nat \<Rightarrow> SliceSubSet" where
  "addToReducedSlice s i = s\<lparr>reducedSlice := reducedSlice s @ [i]\<rparr>"

text \<open>The band name the classifier builds: \<open>sliceBaseID + str(sliceIndex)\<close>.\<close>

definition bandName :: "string \<Rightarrow> nat \<Rightarrow> string" where
  "bandName sliceBaseID sliceIndex = sliceBaseID @ str_nat sliceIndex"

subsection \<open>\<open>SliceSubSet.bfs\<close>\<close>

text \<open>
  The \<open>for\<close> loop over the neighbours of the vertex taken from the queue. It threads
  the node array, the queue and the subset; \<open>nodesArr[neighbourIndex]\<close> raises
  \<open>IndexError\<close> when the index is out of range.
\<close>

fun bfs_for :: "nat list \<Rightarrow> Node list \<Rightarrow> nat list \<Rightarrow> SliceSubSet
    \<Rightarrow> py_error + (Node list \<times> nat list \<times> SliceSubSet)" where
  "bfs_for [] nodes bfsQueue s = Inr (nodes, bfsQueue, s)"
| "bfs_for (neighbourIndex # rest) nodes bfsQueue s =
     (if neighbourIndex < length nodes then
        (let nodeToChek = nodes ! neighbourIndex in
         if sliceSubSetName nodeToChek = [] \<and> sliceName nodeToChek = subSliceName s
         then bfs_for rest
                (nodes[neighbourIndex := setSliceSubSetName nodeToChek (getOwnName s)])
                (bfsQueue @ [neighbourIndex]) (addNode s neighbourIndex)
         else bfs_for rest nodes bfsQueue s)
      else Inl IndexError)"

definition unlabelled :: "Node list \<Rightarrow> nat" where
  "unlabelled nodes = length (filter (\<lambda>n. sliceSubSetName n = []) nodes)"

lemma unlabelled_update:
  "j < length nodes \<Longrightarrow> sliceSubSetName (nodes ! j) = [] \<Longrightarrow> sliceSubSetName n' \<noteq> []
     \<Longrightarrow> Suc (unlabelled (nodes[j := n'])) = unlabelled nodes"
  unfolding unlabelled_def
proof (induction nodes arbitrary: j)
  case Nil
  then show ?case by simp
next
  case (Cons a nodes)
  then show ?case by (cases j) auto
qed

lemma str_nat_nonempty: "str_nat n \<noteq> []"
  by (subst str_nat.simps) simp

lemma getOwnName_nonempty: "getOwnName s \<noteq> []"
  by (simp add: getOwnName_def nodeSubSetName_def str_nat_nonempty)

lemma getOwnName_addNode: "getOwnName (addNode s i) = getOwnName s"
  by (simp add: getOwnName_def nodeSubSetName_def addNode_def)

lemma bfs_for_measure:
  "bfs_for js nodes q s = Inr (nodes', q', s')
     \<Longrightarrow> unlabelled nodes' + length q' = unlabelled nodes + length q"
proof (induction js nodes q s rule: bfs_for.induct)
  case (1 nodes bfsQueue s)
  then show ?case by simp
next
  case (2 j rest nodes bfsQueue s)
  show ?case
  proof (cases "j < length nodes")
    case False
    with "2.prems" show ?thesis by simp
  next
    case inr: True
    show ?thesis
    proof (cases "sliceSubSetName (nodes ! j) = [] \<and> sliceName (nodes ! j) = subSliceName s")
      case True
      have lab: "sliceSubSetName (setSliceSubSetName (nodes ! j) (getOwnName s)) \<noteq> []"
        by (simp add: setSliceSubSetName_def getOwnName_nonempty)
      from True inr "2.prems" have
        "bfs_for rest (nodes[j := setSliceSubSetName (nodes ! j) (getOwnName s)])
           (bfsQueue @ [j]) (addNode s j) = Inr (nodes', q', s')"
        by simp
      with "2.IH"(1) [OF inr refl True] have
        "unlabelled nodes' + length q'
           = unlabelled (nodes[j := setSliceSubSetName (nodes ! j) (getOwnName s)])
             + length (bfsQueue @ [j])"
        by simp
      with unlabelled_update [OF inr _ lab] True show ?thesis by simp
    next
      case False
      with inr "2.prems" have "bfs_for rest nodes bfsQueue s = Inr (nodes', q', s')"
        by auto
      with "2.IH"(2) [OF inr refl False] show ?thesis by simp
    qed
  qed
qed

text \<open>The \<open>while len(bfsQueue)\<close> loop; \<open>popleft\<close> takes the head of the queue.\<close>

function bfs_while :: "nat list \<Rightarrow> Node list \<Rightarrow> SliceSubSet
    \<Rightarrow> py_error + (Node list \<times> SliceSubSet)" where
  "bfs_while [] nodes s = Inr (nodes, s)"
| "bfs_while (i # bfsQueue) nodes s =
     (if i < length nodes then
        (case bfs_for (neighboursIndices (nodes ! i)) nodes bfsQueue s of
           Inl e \<Rightarrow> Inl e
         | Inr r \<Rightarrow> bfs_while (fst (snd r)) (fst r) (snd (snd r)))
      else Inl IndexError)"
  by pat_completeness auto
termination
proof (relation "measure (\<lambda>(q, nodes, s). unlabelled nodes + length q)")
  show "wf (measure (\<lambda>(q, nodes, s). unlabelled nodes + length q))"
    by simp
next
  fix i :: nat and bfsQueue :: "nat list" and nodes :: "Node list" and s :: SliceSubSet
    and r :: "Node list \<times> nat list \<times> SliceSubSet"
  assume "bfs_for (neighboursIndices (nodes ! i)) nodes bfsQueue s = Inr r"
  then have "bfs_for (neighboursIndices (nodes ! i)) nodes bfsQueue s
               = Inr (fst r, fst (snd r), snd (snd r))"
    by simp
  from bfs_for_measure [OF this]
  show "((fst (snd r), fst r, snd (snd r)), i # bfsQueue, nodes, s)
          \<in> measure (\<lambda>(q, nodes, s). unlabelled nodes + length q)"
    by simp
qed

definition bfs :: "SliceSubSet \<Rightarrow> nat \<Rightarrow> Node list \<Rightarrow> py_error + (Node list \<times> SliceSubSet)" where
  "bfs s initialNodeIdx nodes =
     (let s1 = addNode s initialNodeIdx in
      if initialNodeIdx < length nodes then
        bfs_while [initialNodeIdx]
          (nodes[initialNodeIdx :=
                   setSliceSubSetName (nodes ! initialNodeIdx) (nodeSubSetName s1)])
          s1
      else Inl IndexError)"

subsection \<open>\<open>SliceSubSet.reducer\<close>\<close>

text \<open>The two values of the variable \<open>strategy\<close>: the builtins \<open>max\<close> and \<open>min\<close>.\<close>

datatype Strategy = PyMax | PyMin

text \<open>
  \<open>max(xs, key=f)\<close> keeps the first element and replaces it only by a strictly
  greater one, \<open>min\<close> only by a strictly smaller one; both raise \<open>ValueError\<close> on an
  empty list.
\<close>

fun py_max_from :: "('a \<Rightarrow> real) \<Rightarrow> 'a \<Rightarrow> 'a list \<Rightarrow> 'a" where
  "py_max_from key best [] = best"
| "py_max_from key best (x # xs) = py_max_from key (if key x > key best then x else best) xs"

fun py_min_from :: "('a \<Rightarrow> real) \<Rightarrow> 'a \<Rightarrow> 'a list \<Rightarrow> 'a" where
  "py_min_from key best [] = best"
| "py_min_from key best (x # xs) = py_min_from key (if key x < key best then x else best) xs"

fun apply_strategy :: "Strategy \<Rightarrow> 'a list \<Rightarrow> ('a \<Rightarrow> real) \<Rightarrow> py_error + 'a" where
  "apply_strategy st [] key = Inl ValueError"
| "apply_strategy PyMax (x # xs) key = Inr (py_max_from key x xs)"
| "apply_strategy PyMin (x # xs) key = Inr (py_min_from key x xs)"

text \<open>The first loop of the reducer: \<open>min\<close> as soon as a neighbour of the seed lies
  strictly lower in another band, \<open>max\<close> when the loop ends without a \<open>break\<close>.\<close>

fun pick_strategy :: "Node list \<Rightarrow> Node \<Rightarrow> nat list \<Rightarrow> py_error + Strategy" where
  "pick_strategy nodes currentNode [] = Inr PyMax"
| "pick_strategy nodes currentNode (neighbourIndex # rest) =
     (if neighbourIndex < length nodes then
        (let neighbour = nodes ! neighbourIndex in
         if rotatedZ neighbour < rotatedZ currentNode \<and> sliceName neighbour \<noteq> sliceName currentNode
         then Inr PyMin
         else pick_strategy nodes currentNode rest)
      else Inl IndexError)"

text \<open>\<open>list(filter(lambda index: nodesArr[index].getSliceSubSetName() != self.getOwnName(), ...))\<close>\<close>

fun candidatIndices :: "Node list \<Rightarrow> string \<Rightarrow> nat list \<Rightarrow> py_error + nat list" where
  "candidatIndices nodes own [] = Inr []"
| "candidatIndices nodes own (j # js) =
     (if j < length nodes then
        (case candidatIndices nodes own js of
           Inl e \<Rightarrow> Inl e
         | Inr r \<Rightarrow> Inr (if sliceSubSetName (nodes ! j) \<noteq> own then j # r else r))
      else Inl IndexError)"

text \<open>The second loop of the reducer, over \<open>self.getAllNodesIndecies()\<close>.\<close>

fun reducer_for :: "Strategy \<Rightarrow> nat list \<Rightarrow> Node list \<Rightarrow> SliceSubSet
    \<Rightarrow> py_error + (Node list \<times> SliceSubSet)" where
  "reducer_for strategy [] nodes s = Inr (nodes, s)"
| "reducer_for strategy (nodeIndex # rest) nodes s =
     (if nodeIndex < length nodes then
        (let currentNode = nodes ! nodeIndex in
         if \<not> visited currentNode then
           (let nodes1 = nodes[nodeIndex := markAsVisited currentNode] in
            case candidatIndices nodes1 (getOwnName s) (neighboursIndices currentNode) of
              Inl e \<Rightarrow> Inl e
            | Inr cands \<Rightarrow>
                if cands \<noteq> [] then
                  (case apply_strategy strategy (cands @ [nodeIndex])
                          (\<lambda>index. rotatedZ (nodes1 ! index)) of
                     Inl e \<Rightarrow> Inl e
                   | Inr resultIndex \<Rightarrow>
                       if resultIndex \<noteq> nodeIndex
                       then reducer_for strategy rest nodes1 (addToReducedSlice s nodeIndex)
                       else reducer_for strategy rest nodes1 s)
                else reducer_for strategy rest nodes1 s)
         else reducer_for strategy rest nodes s)
      else Inl IndexError)"

text \<open>
  The test of the second loop, for a vertex not yet visited: it has candidates, and the
  strategy does not select the vertex itself among the candidates followed by itself.
\<close>

definition keeps :: "Strategy \<Rightarrow> Node list \<Rightarrow> string \<Rightarrow> nat \<Rightarrow> bool" where
  "keeps strategy nodes own nodeIndex =
     (case candidatIndices nodes own (neighboursIndices (nodes ! nodeIndex)) of
        Inl e \<Rightarrow> False
      | Inr cands \<Rightarrow>
          cands \<noteq> [] \<and>
          (case apply_strategy strategy (cands @ [nodeIndex]) (\<lambda>index. rotatedZ (nodes ! index)) of
             Inl e \<Rightarrow> False
           | Inr resultIndex \<Rightarrow> resultIndex \<noteq> nodeIndex))"

definition reducer :: "SliceSubSet \<Rightarrow> Node list \<Rightarrow> py_error + (Node list \<times> SliceSubSet)" where
  "reducer s nodes =
     (if initialNodeIndex s < length nodes then
        (let currentNode = nodes ! initialNodeIndex s;
             s1 = addToReducedSlice s (initialNodeIndex s)
         in case pick_strategy nodes currentNode (neighboursIndices currentNode) of
              Inl e \<Rightarrow> Inl e
            | Inr strategy \<Rightarrow> reducer_for strategy (sliceSubSetNodes s1) nodes s1)
      else Inl IndexError)"

subsection \<open>Class \<open>SlicerSoliton\<close>\<close>

text \<open>
  \<open>__sliceNameBase\<close> does not exist until \<open>setSliceNameBase\<close> is called: reading it
  before raises \<open>AttributeError\<close>. The dictionary of subsets keeps insertion order, as
  Python's \<open>dict\<close> does, so it is an association list.
\<close>

record SlicerSoliton =
  sliceDirection :: vec3
  initialBpyNodes :: "BpyVertex list"
  initialBpyEdges :: "BpyEdge list"
  nodesArr :: "Node list"
  sortedNodesIndices :: "nat list"
  cubeEdgeLength :: real
  maxRotatedZ :: real
  sliceNameBase :: "string option"
  subSlicesDict :: "(string \<times> SliceSubSet list) list"

fun buildGraph :: "BpyEdge list \<Rightarrow> Node list \<Rightarrow> py_error + Node list" where
  "buildGraph [] nodes = Inr nodes"
| "buildGraph (edge # rest) nodes =
     (if fst edge < length nodes then
        (let nodes1 = nodes[fst edge := addNeighbourIndex (nodes ! fst edge) (snd edge)] in
         if snd edge < length nodes1 then
           buildGraph rest (nodes1[snd edge := addNeighbourIndex (nodes1 ! snd edge) (fst edge)])
         else Inl IndexError)
      else Inl IndexError)"

definition cubeEdgeLengthEval :: "Node list \<Rightarrow> py_error + real" where
  "cubeEdgeLengthEval nodes =
     (case nodes of
        [] \<Rightarrow> Inl IndexError
      | firstNode # _ \<Rightarrow>
          (case neighboursIndices firstNode of
             [] \<Rightarrow> Inl IndexError
           | j # _ \<Rightarrow>
               if j < length nodes then
                 (let vectorDifference = vsub (coordinates firstNode) (coordinates (nodes ! j))
                  in Inr (sqrt (dot vectorDifference vectorDifference)))
               else Inl IndexError))"

definition logestDiagonalLength :: "real \<Rightarrow> real" where
  "logestDiagonalLength edgeLength = edgeLength * sqrt 3"

text \<open>The constructor. \<open>sorted\<close> is stable, as \<open>sort_key\<close> is.\<close>

definition SlicerSoliton_init :: "BpyVertex list \<Rightarrow> BpyEdge list \<Rightarrow> vec3 \<Rightarrow> py_error + SlicerSoliton" where
  "SlicerSoliton_init bpyVerticesArr bpyEdgesArr npNormal =
     (let nodes0 = map (\<lambda>vertex. Node_init vertex npNormal) bpyVerticesArr;
          sortedIdx = sort_key (\<lambda>index. rotatedZ (nodes0 ! index)) [0 ..< length bpyVerticesArr]
      in case buildGraph bpyEdgesArr nodes0 of
           Inl e \<Rightarrow> Inl e
         | Inr nodes \<Rightarrow>
             (case cubeEdgeLengthEval nodes of
                Inl e \<Rightarrow> Inl e
              | Inr edgeLength \<Rightarrow>
                  Inr \<lparr> sliceDirection = npNormal, initialBpyNodes = bpyVerticesArr,
                        initialBpyEdges = bpyEdgesArr, nodesArr = nodes,
                        sortedNodesIndices = sortedIdx, cubeEdgeLength = edgeLength,
                        maxRotatedZ = logestDiagonalLength edgeLength,
                        sliceNameBase = None, subSlicesDict = [] \<rparr>))"

definition setSliceNameBase :: "SlicerSoliton \<Rightarrow> string \<Rightarrow> SlicerSoliton" where
  "setSliceNameBase obj stringValue = obj\<lparr>sliceNameBase := Some stringValue\<rparr>"

subsection \<open>\<open>SlicerSoliton.slicer\<close>\<close>

text \<open>
  The loop of the classifier. \<open>baseNode\<close> is a reference to an element of the node
  array, kept here as its index \<open>baseIdx\<close>; \<open>currentSliceName\<close> is always
  \<open>sliceBaseID + str(sliceIndex)\<close>.
\<close>

fun slicer_for :: "string \<Rightarrow> real \<Rightarrow> nat list \<Rightarrow> Node list \<Rightarrow> nat \<Rightarrow> nat \<Rightarrow> py_error + Node list" where
  "slicer_for sliceBaseID actualDivergency [] nodes baseIdx sliceIndex = Inr nodes"
| "slicer_for sliceBaseID actualDivergency (index # rest) nodes baseIdx sliceIndex =
     (if index < length nodes then
        (let currentNode = nodes ! index in
         if \<bar>rotatedZ (nodes ! baseIdx) - rotatedZ currentNode\<bar> \<le> actualDivergency
         then slicer_for sliceBaseID actualDivergency rest
                (nodes[index := setSliceName currentNode (bandName sliceBaseID sliceIndex)])
                baseIdx sliceIndex
         else slicer_for sliceBaseID actualDivergency rest
                (nodes[index := setSliceName currentNode (bandName sliceBaseID (sliceIndex + 1))])
                index (sliceIndex + 1))
      else Inl IndexError)"

definition slicer :: "SlicerSoliton \<Rightarrow> py_error + SlicerSoliton" where
  "slicer obj =
     (case sortedNodesIndices obj of
        [] \<Rightarrow> Inl IndexError
      | i0 # _ \<Rightarrow>
          if i0 < length (nodesArr obj) then
            (case sliceNameBase obj of
               None \<Rightarrow> Inl AttributeError
             | Some sliceBaseID \<Rightarrow>
                 (case slicer_for sliceBaseID (maxRotatedZ obj) (sortedNodesIndices obj)
                         (nodesArr obj) i0 0 of
                    Inl e \<Rightarrow> Inl e
                  | Inr nodes \<Rightarrow> Inr (obj\<lparr>nodesArr := nodes\<rparr>)))
          else Inl IndexError)"

text \<open>
  The same loop, listing what it writes: for every iteration the vertex labelled, the
  label given to it, and the anchor at that moment, that is the index of \<open>baseNode\<close>
  when \<open>setSliceName\<close> is called. In the second branch the call (line 334) precedes
  the assignment \<open>baseNode = currentNode\<close> (line 335), so the anchor recorded there is
  still the one of the band before.
\<close>

fun slicer_history :: "string \<Rightarrow> real \<Rightarrow> nat list \<Rightarrow> Node list \<Rightarrow> nat \<Rightarrow> nat
    \<Rightarrow> (nat \<times> string \<times> nat) list" where
  "slicer_history sliceBaseID actualDivergency [] nodes baseIdx sliceIndex = []"
| "slicer_history sliceBaseID actualDivergency (index # rest) nodes baseIdx sliceIndex =
     (if index < length nodes then
        (let currentNode = nodes ! index in
         if \<bar>rotatedZ (nodes ! baseIdx) - rotatedZ currentNode\<bar> \<le> actualDivergency
         then (index, bandName sliceBaseID sliceIndex, baseIdx)
              # slicer_history sliceBaseID actualDivergency rest
                  (nodes[index := setSliceName currentNode (bandName sliceBaseID sliceIndex)])
                  baseIdx sliceIndex
         else (index, bandName sliceBaseID (sliceIndex + 1), baseIdx)
              # slicer_history sliceBaseID actualDivergency rest
                  (nodes[index := setSliceName currentNode (bandName sliceBaseID (sliceIndex + 1))])
                  index (sliceIndex + 1))
      else [])"

text \<open>One entry of that list as a write to the node array, and the list for an object
  whose name base is \<open>sliceBaseID\<close>.\<close>

definition slicer_write :: "Node list \<Rightarrow> nat \<times> string \<times> nat \<Rightarrow> Node list" where
  "slicer_write nodes w = nodes[fst w := setSliceName (nodes ! fst w) (fst (snd w))]"

definition classifier_history :: "SlicerSoliton \<Rightarrow> string \<Rightarrow> (nat \<times> string \<times> nat) list" where
  "classifier_history obj sliceBaseID =
     slicer_history sliceBaseID (maxRotatedZ obj) (sortedNodesIndices obj) (nodesArr obj)
       (hd (sortedNodesIndices obj)) 0"

text \<open>
  The variables of the loop after it has run over a list of indices: the node array,
  \<open>baseNode\<close> (as an index) and \<open>sliceIndex\<close>. For an object, the loop starts with the
  first sorted index as \<open>baseNode\<close> and with \<open>sliceIndex = 0\<close>.
\<close>

fun slicer_state :: "string \<Rightarrow> real \<Rightarrow> nat list \<Rightarrow> Node list \<Rightarrow> nat \<Rightarrow> nat
    \<Rightarrow> Node list \<times> nat \<times> nat" where
  "slicer_state sliceBaseID actualDivergency [] nodes baseIdx sliceIndex =
     (nodes, baseIdx, sliceIndex)"
| "slicer_state sliceBaseID actualDivergency (index # rest) nodes baseIdx sliceIndex =
     (if index < length nodes then
        (let currentNode = nodes ! index in
         if \<bar>rotatedZ (nodes ! baseIdx) - rotatedZ currentNode\<bar> \<le> actualDivergency
         then slicer_state sliceBaseID actualDivergency rest
                (nodes[index := setSliceName currentNode (bandName sliceBaseID sliceIndex)])
                baseIdx sliceIndex
         else slicer_state sliceBaseID actualDivergency rest
                (nodes[index := setSliceName currentNode (bandName sliceBaseID (sliceIndex + 1))])
                index (sliceIndex + 1))
      else (nodes, baseIdx, sliceIndex))"

definition classifier_state :: "SlicerSoliton \<Rightarrow> string \<Rightarrow> nat list \<Rightarrow> Node list \<times> nat \<times> nat" where
  "classifier_state obj sliceBaseID idxs =
     slicer_state sliceBaseID (maxRotatedZ obj) idxs (nodesArr obj)
       (hd (sortedNodesIndices obj)) 0"

subsection \<open>\<open>SlicerSoliton.sliceRunner\<close>\<close>

definition initiateNewSubSlicesList :: "(string \<times> SliceSubSet list) list \<Rightarrow> Node
    \<Rightarrow> (string \<times> SliceSubSet list) list" where
  "initiateNewSubSlicesList dict node =
     (case map_of dict (sliceName node) of
        None \<Rightarrow> dict @ [(sliceName node, [])]
      | Some subSlicesList \<Rightarrow> dict)"

fun appendNewSubSlice :: "(string \<times> SliceSubSet list) list \<Rightarrow> SliceSubSet
    \<Rightarrow> py_error + (string \<times> SliceSubSet list) list" where
  "appendNewSubSlice [] subSlice = Inl KeyError"
| "appendNewSubSlice (entry # dict) subSlice =
     (if fst entry = subSliceName subSlice then Inr ((fst entry, snd entry @ [subSlice]) # dict)
      else (case appendNewSubSlice dict subSlice of
              Inl e \<Rightarrow> Inl e
            | Inr dict' \<Rightarrow> Inr (entry # dict')))"

text \<open>The inner loop of \<open>sliceRunner\<close> up to its \<open>break\<close>: is there a neighbour in
  another band?\<close>

fun touches_other_slice :: "Node list \<Rightarrow> Node \<Rightarrow> nat list \<Rightarrow> py_error + bool" where
  "touches_other_slice nodes currentNode [] = Inr False"
| "touches_other_slice nodes currentNode (neighbourIndex # rest) =
     (if neighbourIndex < length nodes then
        (if sliceName (nodes ! neighbourIndex) \<noteq> sliceName currentNode then Inr True
         else touches_other_slice nodes currentNode rest)
      else Inl IndexError)"

text \<open>The four statements before the \<open>break\<close>: create, \<open>bfs\<close>, \<open>reducer\<close>, append.\<close>

definition newSubSlice :: "Node list \<Rightarrow> (string \<times> SliceSubSet list) list \<Rightarrow> nat
    \<Rightarrow> py_error + (Node list \<times> (string \<times> SliceSubSet list) list)" where
  "newSubSlice nodes dict nodeIndex =
     (let currentNode = nodes ! nodeIndex in
      case map_of dict (sliceName currentNode) of
        None \<Rightarrow> Inl KeyError
      | Some subSlicesList \<Rightarrow>
          (case bfs (SliceSubSet_init currentNode nodeIndex (length subSlicesList)) nodeIndex nodes of
             Inl e \<Rightarrow> Inl e
           | Inr r1 \<Rightarrow>
               (case reducer (snd r1) (fst r1) of
                  Inl e \<Rightarrow> Inl e
                | Inr r2 \<Rightarrow>
                    (case appendNewSubSlice dict (snd r2) of
                       Inl e \<Rightarrow> Inl e
                     | Inr dict' \<Rightarrow> Inr (fst r2, dict')))))"

fun sliceRunner_for :: "nat list \<Rightarrow> Node list \<Rightarrow> (string \<times> SliceSubSet list) list
    \<Rightarrow> py_error + (Node list \<times> (string \<times> SliceSubSet list) list)" where
  "sliceRunner_for [] nodes dict = Inr (nodes, dict)"
| "sliceRunner_for (nodeIndex # rest) nodes dict =
     (if nodeIndex < length nodes then
        (let currentNode = nodes ! nodeIndex;
             dict1 = initiateNewSubSlicesList dict currentNode
         in if sliceSubSetName currentNode = [] then
              (case touches_other_slice nodes currentNode (neighboursIndices currentNode) of
                 Inl e \<Rightarrow> Inl e
               | Inr False \<Rightarrow> sliceRunner_for rest nodes dict1
               | Inr True \<Rightarrow>
                   (case newSubSlice nodes dict1 nodeIndex of
                      Inl e \<Rightarrow> Inl e
                    | Inr r \<Rightarrow> sliceRunner_for rest (fst r) (snd r)))
            else sliceRunner_for rest nodes dict1)
      else Inl IndexError)"

definition sliceRunner :: "SlicerSoliton \<Rightarrow> py_error + SlicerSoliton" where
  "sliceRunner obj =
     (case sliceRunner_for (sortedNodesIndices obj) (nodesArr obj) (subSlicesDict obj) of
        Inl e \<Rightarrow> Inl e
      | Inr r \<Rightarrow> Inr (obj\<lparr>nodesArr := fst r, subSlicesDict := snd r\<rparr>))"

subsection \<open>\<open>SlicerSoliton.slicesHighlighter\<close>\<close>

text \<open>
  Python list indexing with an integer: a negative index counts from the end. The
  highlighter returns the object as the call leaves it together with the exception it
  raised, if any, so that what was written before a failure stays visible.
\<close>

definition py_index :: "'a list \<Rightarrow> int \<Rightarrow> py_error + 'a" where
  "py_index xs i =
     (if 0 \<le> i \<and> i < int (length xs) then Inr (xs ! nat i)
      else if i < 0 \<and> - int (length xs) \<le> i then Inr (xs ! nat (int (length xs) + i))
      else Inl IndexError)"

fun select_chain :: "nat list \<Rightarrow> BpyVertex list \<Rightarrow> BpyVertex list \<times> py_error option" where
  "select_chain [] bpyNodes = (bpyNodes, None)"
| "select_chain (subIndex # rest) bpyNodes =
     (if subIndex < length bpyNodes
      then select_chain rest (bpyNodes[subIndex := (bpyNodes ! subIndex)\<lparr>select := True\<rparr>])
      else (bpyNodes, Some IndexError))"

fun highlight_listed :: "int list \<Rightarrow> SliceSubSet list \<Rightarrow> BpyVertex list
    \<Rightarrow> BpyVertex list \<times> py_error option" where
  "highlight_listed [] subSlicesArr bpyNodes = (bpyNodes, None)"
| "highlight_listed (index # rest) subSlicesArr bpyNodes =
     (case py_index subSlicesArr index of
        Inl KeyError \<Rightarrow> highlight_listed rest subSlicesArr bpyNodes
      | Inl e \<Rightarrow> (bpyNodes, Some e)
      | Inr subSliceList \<Rightarrow>
          (case select_chain (reducedSlice subSliceList) bpyNodes of
             (bpyNodes', Some e) \<Rightarrow> (bpyNodes', Some e)
           | (bpyNodes', None) \<Rightarrow> highlight_listed rest subSlicesArr bpyNodes'))"

fun highlight_all :: "SliceSubSet list \<Rightarrow> BpyVertex list \<Rightarrow> BpyVertex list \<times> py_error option" where
  "highlight_all [] bpyNodes = (bpyNodes, None)"
| "highlight_all (subSlice # rest) bpyNodes =
     (case select_chain (reducedSlice subSlice) bpyNodes of
        (bpyNodes', Some e) \<Rightarrow> (bpyNodes', Some e)
      | (bpyNodes', None) \<Rightarrow> highlight_all rest bpyNodes')"

definition slicesHighlighter :: "SlicerSoliton \<Rightarrow> int \<Rightarrow> int list \<Rightarrow> SlicerSoliton \<times> py_error option" where
  "slicesHighlighter obj sliceIndex subSlicesIndices =
     (case py_index (map fst (subSlicesDict obj)) sliceIndex of
        Inl e \<Rightarrow> (obj, Some e)
      | Inr certainKeyToHighlight \<Rightarrow>
          (case map_of (subSlicesDict obj) certainKeyToHighlight of
             None \<Rightarrow> (obj, Some KeyError)
           | Some subSlicesArr \<Rightarrow>
               (let r = (if subSlicesIndices \<noteq> []
                         then highlight_listed subSlicesIndices subSlicesArr (initialBpyNodes obj)
                         else highlight_all subSlicesArr (initialBpyNodes obj))
                in (obj\<lparr>initialBpyNodes := fst r\<rparr>, snd r))))"


subsection \<open>The run\<close>

text \<open>
  The calls of the script at the end of the file, in its order: construct the object,
  set the name base, classify (\<open>slicer\<close>), partition and reduce (\<open>sliceRunner\<close>). An
  exception ends the run where it is raised.
\<close>

definition run_slicing :: "BpyVertex list \<Rightarrow> BpyEdge list \<Rightarrow> vec3 \<Rightarrow> string
    \<Rightarrow> py_error + SlicerSoliton" where
  "run_slicing vertices edges npNormal nameBase =
     (case SlicerSoliton_init vertices edges npNormal of
        Inl e \<Rightarrow> Inl e
      | Inr obj \<Rightarrow>
          (case slicer (setSliceNameBase obj nameBase) of
             Inl e \<Rightarrow> Inl e
           | Inr obj1 \<Rightarrow> sliceRunner obj1))"

subsection \<open>Example meshes\<close>

text \<open>A Blender vertex at the given coordinates, not selected.\<close>

definition bv :: "real \<Rightarrow> real \<Rightarrow> real \<Rightarrow> BpyVertex" where
  "bv x y z = \<lparr>co = (x, y, z), select = False\<rparr>"

definition mkNode :: "vec3 \<Rightarrow> nat list \<Rightarrow> bool \<Rightarrow> string \<Rightarrow> string \<Rightarrow> real \<Rightarrow> Node" where
  "mkNode c ns v sl sub z = \<lparr> coordinates = c, neighboursIndices = ns, visited = v,
       sliceName = sl, sliceSubSetName = sub, rotatedZ = z \<rparr>"

text \<open>Three vertices on the slicing axis at heights 0, 1 and 3, joined in a path.\<close>

definition line3_vertices :: "BpyVertex list" where
  "line3_vertices = [bv 0 0 0, bv 0 0 1, bv 0 0 3]"

definition line3_edges :: "BpyEdge list" where
  "line3_edges = [(0, 1), (1, 2)]"

text \<open>The states of the run on the path: after the constructor, after \<open>slicer\<close>
  and after \<open>sliceRunner\<close>.\<close>

definition line3_nodes_init :: "Node list" where
  "line3_nodes_init =
     [mkNode (0, 0, 0) [1] False [] [] 0,
      mkNode (0, 0, 1) [0, 2] False [] [] 1,
      mkNode (0, 0, 3) [1] False [] [] 3]"

definition line3_nodes_sliced :: "Node list" where
  "line3_nodes_sliced =
     [mkNode (0, 0, 0) [1] False ''slice0'' [] 0,
      mkNode (0, 0, 1) [0, 2] False ''slice0'' [] 1,
      mkNode (0, 0, 3) [1] False ''slice1'' [] 3]"

definition line3_nodes_final :: "Node list" where
  "line3_nodes_final =
     [mkNode (0, 0, 0) [1] True ''slice0'' ''slice00'' 0,
      mkNode (0, 0, 1) [0, 2] True ''slice0'' ''slice00'' 1,
      mkNode (0, 0, 3) [1] True ''slice1'' ''slice10'' 3]"

definition line3_subset0 :: SliceSubSet where
  "line3_subset0 = \<lparr> subSliceName = ''slice0'', sliceSubSetIndex = 0,
       sliceSubSetNodes = [1, 0], initialNodeIndex = 1, reducedSlice = [1, 1] \<rparr>"

definition line3_subset1 :: SliceSubSet where
  "line3_subset1 = \<lparr> subSliceName = ''slice1'', sliceSubSetIndex = 0,
       sliceSubSetNodes = [2], initialNodeIndex = 2, reducedSlice = [2, 2] \<rparr>"

text \<open>The first subset of the path, and the node array, between \<open>bfs\<close> and
  \<open>reducer\<close>.\<close>

definition line3_nodes_bfs :: "Node list" where
  "line3_nodes_bfs =
     [mkNode (0, 0, 0) [1] False ''slice0'' ''slice00'' 0,
      mkNode (0, 0, 1) [0, 2] False ''slice0'' ''slice00'' 1,
      mkNode (0, 0, 3) [1] False ''slice1'' [] 3]"

definition line3_subset0_bfs :: SliceSubSet where
  "line3_subset0_bfs = \<lparr> subSliceName = ''slice0'', sliceSubSetIndex = 0,
       sliceSubSetNodes = [1, 0], initialNodeIndex = 1, reducedSlice = [] \<rparr>"

definition line3_obj0 :: SlicerSoliton where
  "line3_obj0 =
     \<lparr> sliceDirection = (0, 0, 1), initialBpyNodes = line3_vertices,
       initialBpyEdges = line3_edges, nodesArr = line3_nodes_init,
       sortedNodesIndices = [0, 1, 2], cubeEdgeLength = 1, maxRotatedZ = sqrt 3,
       sliceNameBase = None, subSlicesDict = [] \<rparr>"

definition line3_obj1 :: SlicerSoliton where
  "line3_obj1 = line3_obj0\<lparr>sliceNameBase := Some ''slice'', nodesArr := line3_nodes_sliced\<rparr>"

definition line3_obj2 :: SlicerSoliton where
  "line3_obj2 = line3_obj1\<lparr>nodesArr := line3_nodes_final,
       subSlicesDict := [(''slice0'', [line3_subset0]), (''slice1'', [line3_subset1])]\<rparr>"

text \<open>
  The unit cube of Scenario A: its eight corners, the four of height 0 first, the twelve
  edges of the wireframe and one diagonal on each face. The node array of the run is
  \<open>cube_nodes\<close>, with the band label as a parameter.
\<close>

definition cube_vertices :: "BpyVertex list" where
  "cube_vertices =
     [bv 0 0 0, bv 1 0 0, bv 0 1 0, bv 1 1 0, bv 0 0 1, bv 1 0 1, bv 0 1 1, bv 1 1 1]"

definition cube_edges :: "BpyEdge list" where
  "cube_edges = [(0, 1), (0, 2), (1, 3), (2, 3), (4, 5), (4, 6), (5, 7), (6, 7),
                 (0, 4), (1, 5), (2, 6), (3, 7),
                 (0, 3), (4, 7), (0, 5), (2, 7), (0, 6), (1, 7)]"

definition cube_nodes :: "string \<Rightarrow> Node list" where
  "cube_nodes sl =
     [mkNode (0, 0, 0) [1, 2, 4, 3, 5, 6] False sl [] 0,
      mkNode (1, 0, 0) [0, 3, 5, 7] False sl [] 0,
      mkNode (0, 1, 0) [0, 3, 6, 7] False sl [] 0,
      mkNode (1, 1, 0) [1, 2, 7, 0] False sl [] 0,
      mkNode (0, 0, 1) [5, 6, 0, 7] False sl [] 1,
      mkNode (1, 0, 1) [4, 7, 1, 0] False sl [] 1,
      mkNode (0, 1, 1) [4, 7, 2, 0] False sl [] 1,
      mkNode (1, 1, 1) [5, 6, 3, 4, 2, 1] False sl [] 1]"

definition cube_obj0 :: SlicerSoliton where
  "cube_obj0 =
     \<lparr> sliceDirection = (0, 0, 1), initialBpyNodes = cube_vertices,
       initialBpyEdges = cube_edges, nodesArr = cube_nodes [],
       sortedNodesIndices = [0, 1, 2, 3, 4, 5, 6, 7], cubeEdgeLength = 1, maxRotatedZ = sqrt 3,
       sliceNameBase = None, subSlicesDict = [] \<rparr>"

definition cube_obj1 :: SlicerSoliton where
  "cube_obj1 = cube_obj0\<lparr>sliceNameBase := Some ''slice'', nodesArr := cube_nodes ''slice0''\<rparr>"

definition cube_obj2 :: SlicerSoliton where
  "cube_obj2 = cube_obj1\<lparr>subSlicesDict := [(''slice0'', [])]\<rparr>"

subsection \<open>Predicates of the statements\<close>

text \<open>A reduced chain that starts with the seed and stays within the members.\<close>

definition chain_ok :: "SliceSubSet \<Rightarrow> bool" where
  "chain_ok S = (reducedSlice S \<noteq> [] \<and> hd (reducedSlice S) = initialNodeIndex S
                 \<and> set (reducedSlice S) \<subseteq> set (sliceSubSetNodes S))"

text \<open>
  The candidates as the specification words them: the neighbours that belong to a
  different subset, a neighbour that belongs to no subset not being one.
\<close>

definition spec_candidates :: "Node list \<Rightarrow> string \<Rightarrow> nat list \<Rightarrow> nat list" where
  "spec_candidates nodes own js =
     filter (\<lambda>j. sliceSubSetName (nodes ! j) \<noteq> [] \<and> sliceSubSetName (nodes ! j) \<noteq> own) js"

text \<open>
  Well-formedness of the node array: every neighbour id is an index of the array (what
  \<open>buildGraph\<close> leaves), and every visited vertex carries a subset label (what every
  state of a run satisfies).
\<close>

definition graph_ok :: "Node list \<Rightarrow> bool" where
  "graph_ok nodes =
     (\<forall>k<length nodes. \<forall>j\<in>set (neighboursIndices (nodes ! k)). j < length nodes)"

definition visited_labelled :: "Node list \<Rightarrow> bool" where
  "visited_labelled nodes =
     (\<forall>k<length nodes. visited (nodes ! k) \<longrightarrow> sliceSubSetName (nodes ! k) \<noteq> [])"

text \<open>What \<open>bfs\<close> may change in the node array: only subset labels, and only empty ones.
  What \<open>reducer\<close> may change: only visited flags, and only from false to true.\<close>

definition relabelled :: "Node list \<Rightarrow> Node list \<Rightarrow> bool" where
  "relabelled nodes nodes' =
     (length nodes' = length nodes \<and>
      (\<forall>k. neighboursIndices (nodes' ! k) = neighboursIndices (nodes ! k)
           \<and> sliceName (nodes' ! k) = sliceName (nodes ! k)
           \<and> visited (nodes' ! k) = visited (nodes ! k)
           \<and> rotatedZ (nodes' ! k) = rotatedZ (nodes ! k)
           \<and> (sliceSubSetName (nodes ! k) \<noteq> []
                \<longrightarrow> sliceSubSetName (nodes' ! k) = sliceSubSetName (nodes ! k))))"

definition marked :: "Node list \<Rightarrow> Node list \<Rightarrow> bool" where
  "marked nodes nodes' =
     (length nodes' = length nodes \<and>
      (\<forall>k. neighboursIndices (nodes' ! k) = neighboursIndices (nodes ! k)
           \<and> sliceName (nodes' ! k) = sliceName (nodes ! k)
           \<and> sliceSubSetName (nodes' ! k) = sliceSubSetName (nodes ! k)
           \<and> rotatedZ (nodes' ! k) = rotatedZ (nodes ! k)
           \<and> (visited (nodes ! k) \<longrightarrow> visited (nodes' ! k))))"

text \<open>The members of the subset and the queued vertices are labelled indices.\<close>

definition claimed :: "Node list \<Rightarrow> nat list \<Rightarrow> bool" where
  "claimed nodes xs = (\<forall>m\<in>set xs. m < length nodes \<and> sliceSubSetName (nodes ! m) \<noteq> [])"

section \<open>Names\<close>

lemma str_nat_Suc_0: "str_nat (Suc 0) = ''1''"
  by (subst str_nat.simps) (simp add: digit_char_def)

lemma str_nat_0: "str_nat 0 = ''0''"
  by (subst str_nat.simps) (simp add: digit_char_def)

lemma str_nat_10: "str_nat 10 = ''10''"
  by (subst str_nat.simps, subst str_nat.simps) (simp add: digit_char_def)

lemma str_nat_11: "str_nat 11 = ''11''"
  by (subst str_nat.simps, subst str_nat.simps) (simp add: digit_char_def)

text \<open>
  Claim C9. The name of a subset is the band name followed by the decimal subset index,
  and the band name is the name base followed by the decimal band index. Band 1 subset 10
  and band 11 subset 0 are different pairs with the same name, for every name base.
\<close>

theorem subset_names_collide:
  "getOwnName (SliceSubSet_init (setSliceName n (bandName sliceBaseID 1)) i 10)
     = getOwnName (SliceSubSet_init (setSliceName n' (bandName sliceBaseID 11)) i' 0)
   \<and> (1 :: nat, 10 :: nat) \<noteq> (11, 0)"
  by (simp add: getOwnName_def nodeSubSetName_def SliceSubSet_init_def setSliceName_def
        bandName_def str_nat_0 str_nat_Suc_0 str_nat_10 str_nat_11)

section \<open>Degenerate input\<close>

lemma buildGraph_length: "buildGraph es nodes = Inr nodes' \<Longrightarrow> length nodes' = length nodes"
  by (induction es nodes rule: buildGraph.induct) (auto simp: Let_def split: if_splits)

lemma buildGraph_error: "buildGraph es nodes = Inl e \<Longrightarrow> e = IndexError"
  by (induction es nodes rule: buildGraph.induct) (auto simp: Let_def split: if_splits)

lemma buildGraph_no_edge_at_0:
  "buildGraph es nodes = Inr nodes' \<Longrightarrow> \<forall>e\<in>set es. fst e \<noteq> 0 \<and> snd e \<noteq> 0
     \<Longrightarrow> nodes \<noteq> [] \<Longrightarrow> neighboursIndices (hd nodes') = neighboursIndices (hd nodes)"
proof (induction es nodes rule: buildGraph.induct)
  case (1 nodes)
  then show ?case by simp
next
  case (2 edge rest nodes)
  let ?n1 = "nodes[fst edge := addNeighbourIndex (nodes ! fst edge) (snd edge)]"
  let ?n2 = "?n1[snd edge := addNeighbourIndex (?n1 ! snd edge) (fst edge)]"
  from "2.prems"(1) have a: "fst edge < length nodes" and b: "snd edge < length ?n1"
    and r: "buildGraph rest ?n2 = Inr nodes'"
    by (auto simp: Let_def split: if_splits)
  from "2.prems"(2) have ne: "fst edge \<noteq> 0" "snd edge \<noteq> 0"
    and rest: "\<forall>e\<in>set rest. fst e \<noteq> 0 \<and> snd e \<noteq> 0"
    by auto
  from "2.prems"(3) ne have hd: "hd ?n2 = hd nodes" and nn: "?n2 \<noteq> []"
    by (auto simp: hd_conv_nth)
  from "2.IH" [OF a refl b r rest nn] hd show ?case by simp
qed

lemma cubeEdgeLengthEval_degenerate:
  "nodes = [] \<or> neighboursIndices (hd nodes) = [] \<Longrightarrow> cubeEdgeLengthEval nodes = Inl IndexError"
  by (auto simp: cubeEdgeLengthEval_def split: list.splits)

lemma buildGraph_degenerate:
  assumes deg: "vs = [] \<or> es = [] \<or> (\<forall>e\<in>set es. fst e \<noteq> 0 \<and> snd e \<noteq> 0)"
    and bg: "buildGraph es (map (\<lambda>vertex. Node_init vertex npNormal) vs) = Inr nodes"
  shows "nodes = [] \<or> neighboursIndices (hd nodes) = []"
proof (cases "vs = []")
  case True
  with buildGraph_length [OF bg] show ?thesis by simp
next
  case False
  let ?n0 = "map (\<lambda>vertex. Node_init vertex npNormal) vs"
  from False have ne: "?n0 \<noteq> []" by simp
  from False have h0: "neighboursIndices (hd ?n0) = []"
    by (cases vs) (simp_all add: Node_init_def)
  from deg False have "\<forall>e\<in>set es. fst e \<noteq> 0 \<and> snd e \<noteq> 0" by auto
  from buildGraph_no_edge_at_0 [OF bg this ne] h0 show ?thesis by simp
qed

text \<open>
  Claim C8. When the vertex list is empty, or the edge list is empty, or no edge touches
  vertex 0 (vertex 0 has no neighbours), the computation of the spacing unit
  (\<open>cubeEdgeLengthEval\<close>, on the graph the constructor has built) raises: the degenerate
  input error is Python's \<open>IndexError\<close>. The constructor fails with it, so the run ends
  there, before the classifier and the partitioner are called.
\<close>

theorem degenerate_input_fails:
  assumes "vs = [] \<or> es = [] \<or> (\<forall>e\<in>set es. fst e \<noteq> 0 \<and> snd e \<noteq> 0)"
  shows "(\<forall>nodes. buildGraph es (map (\<lambda>vertex. Node_init vertex npNormal) vs) = Inr nodes
            \<longrightarrow> cubeEdgeLengthEval nodes = Inl IndexError)
         \<and> SlicerSoliton_init vs es npNormal = Inl IndexError
         \<and> run_slicing vs es npNormal nameBase = Inl IndexError"
proof -
  have a: "cubeEdgeLengthEval nodes = Inl IndexError"
    if "buildGraph es (map (\<lambda>vertex. Node_init vertex npNormal) vs) = Inr nodes" for nodes
    using buildGraph_degenerate [OF assms that] by (rule cubeEdgeLengthEval_degenerate)
  have b: "SlicerSoliton_init vs es npNormal = Inl IndexError"
    using a buildGraph_error by (auto simp: SlicerSoliton_init_def Let_def split: sum.splits)
  from a b show ?thesis by (simp add: run_slicing_def)
qed

theorem degenerate_input_fails_witness:
  "buildGraph [(1, 2)] (map (\<lambda>vertex. Node_init vertex (0, 0, 1)) [bv 0 0 0, bv 1 0 0, bv 0 1 0])
       = Inr [Node_init (bv 0 0 0) (0, 0, 1),
              addNeighbourIndex (Node_init (bv 1 0 0) (0, 0, 1)) 2,
              addNeighbourIndex (Node_init (bv 0 1 0) (0, 0, 1)) 1]
   \<and> cubeEdgeLengthEval [Node_init (bv 0 0 0) (0, 0, 1),
              addNeighbourIndex (Node_init (bv 1 0 0) (0, 0, 1)) 2,
              addNeighbourIndex (Node_init (bv 0 1 0) (0, 0, 1)) 1] = Inl IndexError
   \<and> SlicerSoliton_init [bv 0 0 0, bv 1 0 0, bv 0 1 0] [(1, 2)] (0, 0, 1) = Inl IndexError
   \<and> run_slicing [bv 0 0 0, bv 1 0 0, bv 0 1 0] [(1, 2)] (0, 0, 1) ''slice'' = Inl IndexError"
proof -
  have h: "[bv 0 0 0, bv 1 0 0, bv 0 1 0] = [] \<or> [(1::nat, 2::nat)] = []
             \<or> (\<forall>e\<in>set [(1::nat, 2::nat)]. fst e \<noteq> 0 \<and> snd e \<noteq> 0)"
    by simp
  have g: "buildGraph [(1, 2)] (map (\<lambda>vertex. Node_init vertex (0, 0, 1)) [bv 0 0 0, bv 1 0 0, bv 0 1 0])
       = Inr [Node_init (bv 0 0 0) (0, 0, 1),
              addNeighbourIndex (Node_init (bv 1 0 0) (0, 0, 1)) 2,
              addNeighbourIndex (Node_init (bv 0 1 0) (0, 0, 1)) 1]"
    by (simp add: Let_def)
  from degenerate_input_fails [OF h, of "(0, 0, 1)" "''slice''"] g show ?thesis by simp
qed

section \<open>The reducer\<close>

lemma nth_mark:
  "nodes[m := markAsVisited (nodes ! m)] ! k
     = (if k = m \<and> m < length nodes then markAsVisited (nodes ! m) else nodes ! k)"
proof (cases "m < length nodes")
  case True
  then show ?thesis by (simp add: nth_list_update)
next
  case False
  then show ?thesis by (simp add: list_update_beyond)
qed

lemma mark_fields [simp]:
  "rotatedZ (nodes[m := markAsVisited (nodes ! m)] ! k) = rotatedZ (nodes ! k)"
  "sliceSubSetName (nodes[m := markAsVisited (nodes ! m)] ! k) = sliceSubSetName (nodes ! k)"
  "sliceName (nodes[m := markAsVisited (nodes ! m)] ! k) = sliceName (nodes ! k)"
  "neighboursIndices (nodes[m := markAsVisited (nodes ! m)] ! k) = neighboursIndices (nodes ! k)"
  unfolding nth_mark by (simp_all add: markAsVisited_def)

lemma mark_visited:
  "m < length nodes \<Longrightarrow> visited (nodes[m := markAsVisited (nodes ! m)] ! k) = (k = m \<or> visited (nodes ! k))"
  unfolding nth_mark by (simp add: markAsVisited_def)

lemma candidatIndices_mark [simp]:
  "candidatIndices (nodes[m := markAsVisited (nodes ! m)]) own js = candidatIndices nodes own js"
  by (induction js) (simp_all split: sum.splits)

lemma candidatIndices_filter:
  "\<forall>j\<in>set js. j < length nodes
     \<Longrightarrow> candidatIndices nodes own js = Inr (filter (\<lambda>j. sliceSubSetName (nodes ! j) \<noteq> own) js)"
  by (induction js) auto

lemma candidatIndices_Inr:
  "candidatIndices nodes own js = Inr r
     \<Longrightarrow> r = filter (\<lambda>j. sliceSubSetName (nodes ! j) \<noteq> own) js \<and> (\<forall>j\<in>set js. j < length nodes)"
  by (induction js arbitrary: r) (auto split: if_splits sum.splits)

lemma getOwnName_addToReducedSlice [simp]: "getOwnName (addToReducedSlice s i) = getOwnName s"
  by (simp add: getOwnName_def nodeSubSetName_def addToReducedSlice_def)

lemma reducer_for_step:
  assumes "reducer_for st (i # rest) nodes s = Inr (nodes', s')"
  shows "i < length nodes"
    and "reducer_for st rest
           (if visited (nodes ! i) then nodes else nodes[i := markAsVisited (nodes ! i)])
           (if \<not> visited (nodes ! i) \<and> keeps st nodes (getOwnName s) i
            then addToReducedSlice s i else s) = Inr (nodes', s')"
proof -
  from assms show inr: "i < length nodes"
    by (cases "i < length nodes") simp_all
  show "reducer_for st rest
           (if visited (nodes ! i) then nodes else nodes[i := markAsVisited (nodes ! i)])
           (if \<not> visited (nodes ! i) \<and> keeps st nodes (getOwnName s) i
            then addToReducedSlice s i else s) = Inr (nodes', s')"
  proof (cases "visited (nodes ! i)")
    case True
    with assms inr show ?thesis by simp
  next
    case unv: False
    show ?thesis
    proof (cases "candidatIndices nodes (getOwnName s) (neighboursIndices (nodes ! i))")
      case (Inl e)
      with assms inr unv show ?thesis by (simp add: Let_def)
    next
      case c: (Inr cands)
      show ?thesis
      proof (cases "cands = []")
        case True
        with assms inr unv c show ?thesis by (simp add: Let_def keeps_def)
      next
        case ne: False
        show ?thesis
        proof (cases "apply_strategy st (cands @ [i]) (\<lambda>index. rotatedZ (nodes ! index))")
          case (Inl e)
          with assms inr unv c ne show ?thesis by (simp add: Let_def)
        next
          case r: (Inr resultIndex)
          show ?thesis
          proof (cases "resultIndex = i")
            case True
            with assms inr unv c ne r show ?thesis by (simp add: Let_def keeps_def)
          next
            case False
            with assms inr unv c ne r show ?thesis by (simp add: Let_def keeps_def)
          qed
        qed
      qed
    qed
  qed
qed

lemma keeps_mark [simp]:
  "keeps st (nodes[m := markAsVisited (nodes ! m)]) own i = keeps st nodes own i"
  by (simp add: keeps_def cong: sum.case_cong)

lemma reducer_for_chain:
  "reducer_for st ms nodes s = Inr (nodes', s')
     \<Longrightarrow> \<exists>ys. s' = s\<lparr>reducedSlice := reducedSlice s @ ys\<rparr> \<and> set ys \<subseteq> set ms \<and> distinct ys
              \<and> (\<forall>y\<in>set ys. \<not> visited (nodes ! y))"
proof (induction ms arbitrary: nodes s)
  case Nil
  then show ?case by simp
next
  case (Cons i rest)
  let ?nodes1 = "if visited (nodes ! i) then nodes else nodes[i := markAsVisited (nodes ! i)]"
  let ?s1 = "if \<not> visited (nodes ! i) \<and> keeps st nodes (getOwnName s) i
             then addToReducedSlice s i else s"
  from reducer_for_step [OF Cons.prems] have inr: "i < length nodes"
    and run: "reducer_for st rest ?nodes1 ?s1 = Inr (nodes', s')"
    by blast+
  from Cons.IH [OF run] obtain ys where ys: "s' = ?s1\<lparr>reducedSlice := reducedSlice ?s1 @ ys\<rparr>"
    "set ys \<subseteq> set rest" "distinct ys" "\<forall>y\<in>set ys. \<not> visited (?nodes1 ! y)"
    by blast
  have unv: "\<forall>y\<in>set ys. \<not> visited (nodes ! y)"
    using ys(4) inr by (auto simp: mark_visited split: if_splits)
  show ?case
  proof (cases "\<not> visited (nodes ! i) \<and> keeps st nodes (getOwnName s) i")
    case True
    then have "i \<notin> set ys"
      using ys(4) inr by (auto simp: mark_visited)
    with True ys unv show ?thesis
      by (intro exI [of _ "i # ys"]) (auto simp: addToReducedSlice_def)
  next
    case False
    with ys unv show ?thesis
      by (intro exI [of _ ys]) auto
  qed
qed

lemma reducer_for_keeps:
  "reducer_for st ms nodes s = Inr (nodes', s') \<Longrightarrow> i \<in> set ms \<Longrightarrow> \<not> visited (nodes ! i)
     \<Longrightarrow> keeps st nodes (getOwnName s) i
     \<Longrightarrow> i \<in> set (drop (length (reducedSlice s)) (reducedSlice s'))"
proof (induction ms arbitrary: nodes s)
  case Nil
  then show ?case by simp
next
  case (Cons m rest)
  let ?nodes1 = "if visited (nodes ! m) then nodes else nodes[m := markAsVisited (nodes ! m)]"
  let ?s1 = "if \<not> visited (nodes ! m) \<and> keeps st nodes (getOwnName s) m
             then addToReducedSlice s m else s"
  from reducer_for_step [OF Cons.prems(1)] have inr: "m < length nodes"
    and run: "reducer_for st rest ?nodes1 ?s1 = Inr (nodes', s')"
    by blast+
  from reducer_for_chain [OF run] obtain ys where
    ys: "s' = ?s1\<lparr>reducedSlice := reducedSlice ?s1 @ ys\<rparr>"
    by blast
  show ?case
  proof (cases "m = i")
    case True
    with Cons.prems ys show ?thesis by (simp add: addToReducedSlice_def)
  next
    case False
    with Cons.prems have "i \<in> set rest" "\<not> visited (?nodes1 ! i)"
      "keeps st ?nodes1 (getOwnName ?s1) i"
      using inr by (auto simp: mark_visited)
    from Cons.IH [OF run this] have "i \<in> set (drop (length (reducedSlice ?s1)) (reducedSlice s'))" .
    then have "i \<in> set ys" using ys by simp
    with ys show ?thesis by (simp add: addToReducedSlice_def)
  qed
qed

lemma reducer_for_visited:
  "\<forall>i\<in>set ms. i < length nodes \<and> visited (nodes ! i) \<Longrightarrow> reducer_for st ms nodes s = Inr (nodes, s)"
  by (induction ms) simp_all

lemma pick_strategy_total:
  "\<forall>j\<in>set js. j < length nodes \<Longrightarrow> \<exists>st. pick_strategy nodes cur js = Inr st"
  by (induction js) (auto simp: Let_def)

section \<open>Breadth-first search\<close>

lemma nth_label:
  "nodes[m := setSliceSubSetName (nodes ! m) nm] ! k
     = (if k = m \<and> m < length nodes then setSliceSubSetName (nodes ! m) nm else nodes ! k)"
proof (cases "m < length nodes")
  case True
  then show ?thesis by (simp add: nth_list_update)
next
  case False
  then show ?thesis by (simp add: list_update_beyond)
qed

lemma label_fields [simp]:
  "rotatedZ (nodes[m := setSliceSubSetName (nodes ! m) nm] ! k) = rotatedZ (nodes ! k)"
  "visited (nodes[m := setSliceSubSetName (nodes ! m) nm] ! k) = visited (nodes ! k)"
  "sliceName (nodes[m := setSliceSubSetName (nodes ! m) nm] ! k) = sliceName (nodes ! k)"
  "neighboursIndices (nodes[m := setSliceSubSetName (nodes ! m) nm] ! k) = neighboursIndices (nodes ! k)"
  unfolding nth_label by (simp_all add: setSliceSubSetName_def)

lemma members_extend_refl: "\<exists>ys. s = s\<lparr>sliceSubSetNodes := sliceSubSetNodes s @ ys\<rparr>"
  by (rule exI [of _ "[]"]) simp

lemma bfs_for_result:
  "bfs_for js nodes q s = Inr (nodes', q', s')
     \<Longrightarrow> (\<exists>ys. s' = s\<lparr>sliceSubSetNodes := sliceSubSetNodes s @ ys\<rparr>)
         \<and> length nodes' = length nodes
         \<and> (\<forall>k. visited (nodes' ! k) = visited (nodes ! k))"
proof (induction js arbitrary: nodes q s)
  case Nil
  then show ?case using members_extend_refl [of s] by simp
next
  case (Cons j rest)
  from Cons.prems have inr: "j < length nodes"
    by (cases "j < length nodes") simp_all
  show ?case
  proof (cases "sliceSubSetName (nodes ! j) = [] \<and> sliceName (nodes ! j) = subSliceName s")
    case True
    with Cons.prems inr have
      "bfs_for rest (nodes[j := setSliceSubSetName (nodes ! j) (getOwnName s)])
         (q @ [j]) (addNode s j) = Inr (nodes', q', s')"
      by simp
    from Cons.IH [OF this] show ?thesis
      by (auto simp: addNode_def)
  next
    case False
    with Cons.prems inr have "bfs_for rest nodes q s = Inr (nodes', q', s')"
      by auto
    from Cons.IH [OF this] show ?thesis .
  qed
qed

lemma bfs_while_result:
  "bfs_while q nodes s = Inr (nodes', s')
     \<Longrightarrow> (\<exists>ys. s' = s\<lparr>sliceSubSetNodes := sliceSubSetNodes s @ ys\<rparr>)
         \<and> length nodes' = length nodes
         \<and> (\<forall>k. visited (nodes' ! k) = visited (nodes ! k))"
proof (induction q nodes s rule: bfs_while.induct)
  case (1 nodes s)
  then show ?case using members_extend_refl [of s] by simp
next
  case (2 i bfsQueue nodes s)
  from "2.prems" have inr: "i < length nodes"
    by (cases "i < length nodes") simp_all
  from "2.prems" inr obtain r where
    r: "bfs_for (neighboursIndices (nodes ! i)) nodes bfsQueue s = Inr r"
    and w: "bfs_while (fst (snd r)) (fst r) (snd (snd r)) = Inr (nodes', s')"
    by (cases "bfs_for (neighboursIndices (nodes ! i)) nodes bfsQueue s") simp_all
  from r have "bfs_for (neighboursIndices (nodes ! i)) nodes bfsQueue s
                 = Inr (fst r, fst (snd r), snd (snd r))"
    by simp
  from bfs_for_result [OF this] obtain ys where
    a: "snd (snd r) = s\<lparr>sliceSubSetNodes := sliceSubSetNodes s @ ys\<rparr>"
      "length (fst r) = length nodes" "\<forall>k. visited (fst r ! k) = visited (nodes ! k)"
    by blast
  from "2.IH" [OF inr r w] obtain zs where
    b: "s' = (snd (snd r))\<lparr>sliceSubSetNodes := sliceSubSetNodes (snd (snd r)) @ zs\<rparr>"
      "length nodes' = length (fst r)" "\<forall>k. visited (nodes' ! k) = visited (fst r ! k)"
    by blast
  from a b have "s' = s\<lparr>sliceSubSetNodes := sliceSubSetNodes s @ (ys @ zs)\<rparr>"
    by simp
  with a b show ?case by auto
qed

lemma bfs_result:
  assumes "bfs s i nodes = Inr (nodes', s')"
  shows "\<exists>ys. s' = s\<lparr>sliceSubSetNodes := sliceSubSetNodes s @ i # ys\<rparr>"
    and "length nodes' = length nodes"
    and "visited (nodes' ! k) = visited (nodes ! k)"
    and "i < length nodes"
proof -
  from assms show inr: "i < length nodes"
    by (cases "i < length nodes") (simp_all add: bfs_def Let_def)
  let ?n1 = "nodes[i := setSliceSubSetName (nodes ! i) (nodeSubSetName (addNode s i))]"
  from assms inr have w: "bfs_while [i] ?n1 (addNode s i) = Inr (nodes', s')"
    by (simp add: bfs_def Let_def)
  from bfs_while_result [OF w] obtain ys where
    a: "s' = (addNode s i)\<lparr>sliceSubSetNodes := sliceSubSetNodes (addNode s i) @ ys\<rparr>"
      "length nodes' = length ?n1" "\<forall>k. visited (nodes' ! k) = visited (?n1 ! k)"
    by blast
  from a(1) have "s' = s\<lparr>sliceSubSetNodes := sliceSubSetNodes s @ i # ys\<rparr>"
    by (simp add: addNode_def)
  then show "\<exists>ys. s' = s\<lparr>sliceSubSetNodes := sliceSubSetNodes s @ i # ys\<rparr>" ..
  from a(2) show "length nodes' = length nodes" by simp
  from a(3) show "visited (nodes' ! k) = visited (nodes ! k)" by simp
qed

lemma reducer_result:
  assumes "reducer s nodes = Inr (nodes', s')"
  shows "\<exists>ys. s' = s\<lparr>reducedSlice := reducedSlice s @ initialNodeIndex s # ys\<rparr>
              \<and> set ys \<subseteq> set (sliceSubSetNodes s) \<and> distinct ys
              \<and> (\<forall>y\<in>set ys. \<not> visited (nodes ! y))"
proof -
  from assms have inr: "initialNodeIndex s < length nodes"
    by (cases "initialNodeIndex s < length nodes") (simp_all add: reducer_def)
  let ?cur = "nodes ! initialNodeIndex s"
  let ?s1 = "addToReducedSlice s (initialNodeIndex s)"
  from assms inr obtain st where
    run: "reducer_for st (sliceSubSetNodes ?s1) nodes ?s1 = Inr (nodes', s')"
    by (cases "pick_strategy nodes ?cur (neighboursIndices ?cur)") (simp_all add: reducer_def Let_def)
  from reducer_for_chain [OF run] obtain ys where
    "s' = ?s1\<lparr>reducedSlice := reducedSlice ?s1 @ ys\<rparr>" "set ys \<subseteq> set (sliceSubSetNodes ?s1)"
    "distinct ys" "\<forall>y\<in>set ys. \<not> visited (nodes ! y)"
    by blast
  then show ?thesis
    by (intro exI [of _ ys]) (simp add: addToReducedSlice_def)
qed

section \<open>The run on the three-vertex path\<close>

lemma sqrt3_bounds: "1732 / 1000 < sqrt 3" "sqrt 3 < 1733 / 1000"
  by (rule real_less_rsqrt, simp add: power2_eq_square)
     (rule real_less_lsqrt, simp_all add: power2_eq_square)

lemma sqrt3_cmp [simp]: "0 \<le> sqrt 3" "1 \<le> sqrt 3" "\<not> 3 \<le> sqrt 3"
  using sqrt3_bounds by simp_all

lemma line3_init: "SlicerSoliton_init line3_vertices line3_edges (0, 0, 1) = Inr line3_obj0"
  by (simp add: SlicerSoliton_init_def line3_vertices_def line3_edges_def bv_def Node_init_def
        dot_def vsub_def Let_def addNeighbourIndex_def cubeEdgeLengthEval_def
        logestDiagonalLength_def mkNode_def upt_rec line3_obj0_def line3_nodes_init_def)

lemma line3_slicer: "slicer (setSliceNameBase line3_obj0 ''slice'') = Inr line3_obj1"
  by (simp add: slicer_def setSliceNameBase_def line3_obj0_def line3_obj1_def
        line3_nodes_init_def line3_nodes_sliced_def
        Let_def mkNode_def setSliceName_def bandName_def str_nat_0 str_nat_Suc_0)

lemma line3_sliceRunner: "sliceRunner line3_obj1 = Inr line3_obj2"
  by (simp add: sliceRunner_def line3_obj0_def line3_obj1_def line3_obj2_def line3_nodes_sliced_def
        line3_nodes_final_def line3_subset0_def line3_subset1_def
        Let_def mkNode_def initiateNewSubSlicesList_def newSubSlice_def
        SliceSubSet_init_def bfs_def addNode_def nodeSubSetName_def getOwnName_def
        setSliceSubSetName_def reducer_def addToReducedSlice_def markAsVisited_def
        str_nat_0)

lemma line3_run: "run_slicing line3_vertices line3_edges (0, 0, 1) ''slice'' = Inr line3_obj2"
  unfolding run_slicing_def
  by (simp only: line3_init line3_slicer line3_sliceRunner sum.case)

section \<open>Reduced chains of the subsets produced\<close>

lemma appendNewSubSlice_ok:
  "appendNewSubSlice dict S = Inr dict' \<Longrightarrow> chain_ok S
     \<Longrightarrow> \<forall>entry\<in>set dict. \<forall>T\<in>set (snd entry). chain_ok T
     \<Longrightarrow> \<forall>entry\<in>set dict'. \<forall>T\<in>set (snd entry). chain_ok T"
proof (induction dict arbitrary: dict')
  case Nil
  then show ?case by simp
next
  case (Cons entry dict)
  show ?case
  proof (cases "fst entry = subSliceName S")
    case True
    with Cons.prems show ?thesis by auto
  next
    case False
    with Cons.prems(1) obtain d where d: "appendNewSubSlice dict S = Inr d" and e: "dict' = entry # d"
      by (cases "appendNewSubSlice dict S") auto
    from Cons.IH [OF d Cons.prems(2)] Cons.prems(3) e show ?thesis by simp
  qed
qed

lemma initiateNewSubSlicesList_ok:
  "\<forall>entry\<in>set dict. \<forall>T\<in>set (snd entry). chain_ok T
     \<Longrightarrow> \<forall>entry\<in>set (initiateNewSubSlicesList dict node). \<forall>T\<in>set (snd entry). chain_ok T"
  by (auto simp: initiateNewSubSlicesList_def split: option.splits)

lemma bfs_reducer_chain_ok:
  assumes b: "bfs (SliceSubSet_init node i k) i nodes = Inr (nodes1, s1)"
    and r: "reducer s1 nodes1 = Inr (nodes2, s2)"
  shows "chain_ok s2" and "initialNodeIndex s2 = i"
proof -
  from bfs_result(1) [OF b] obtain ys where
    s1: "s1 = (SliceSubSet_init node i k)\<lparr>sliceSubSetNodes := i # ys\<rparr>"
    by (auto simp: SliceSubSet_init_def)
  from reducer_result [OF r] obtain zs where
    s2: "s2 = s1\<lparr>reducedSlice := reducedSlice s1 @ initialNodeIndex s1 # zs\<rparr>"
    and zs: "set zs \<subseteq> set (sliceSubSetNodes s1)"
    by blast
  from s1 s2 zs show "chain_ok s2"
    by (auto simp: chain_ok_def SliceSubSet_init_def)
  from s1 s2 show "initialNodeIndex s2 = i"
    by (simp add: SliceSubSet_init_def)
qed

lemma newSubSlice_ok:
  assumes n: "newSubSlice nodes dict i = Inr (nodes', dict')"
    and ok: "\<forall>entry\<in>set dict. \<forall>T\<in>set (snd entry). chain_ok T"
  shows "\<forall>entry\<in>set dict'. \<forall>T\<in>set (snd entry). chain_ok T"
proof -
  from n obtain l where l: "map_of dict (sliceName (nodes ! i)) = Some l"
    by (cases "map_of dict (sliceName (nodes ! i))") (simp_all add: newSubSlice_def Let_def)
  from n l obtain r1 where r1: "bfs (SliceSubSet_init (nodes ! i) i (length l)) i nodes = Inr r1"
    by (cases "bfs (SliceSubSet_init (nodes ! i) i (length l)) i nodes")
       (simp_all add: newSubSlice_def Let_def)
  from n l r1 obtain r2 where r2: "reducer (snd r1) (fst r1) = Inr r2"
    by (cases "reducer (snd r1) (fst r1)") (simp_all add: newSubSlice_def Let_def)
  from n l r1 r2 have a: "appendNewSubSlice dict (snd r2) = Inr dict'"
    by (cases "appendNewSubSlice dict (snd r2)") (simp_all add: newSubSlice_def Let_def)
  from r1 have b: "bfs (SliceSubSet_init (nodes ! i) i (length l)) i nodes = Inr (fst r1, snd r1)"
    by simp
  from r2 have "reducer (snd r1) (fst r1) = Inr (fst r2, snd r2)" by simp
  from bfs_reducer_chain_ok(1) [OF b this] have "chain_ok (snd r2)" .
  from appendNewSubSlice_ok [OF a this ok] show ?thesis .
qed

lemma sliceRunner_for_ok:
  "sliceRunner_for idxs nodes dict = Inr (nodes', dict')
     \<Longrightarrow> \<forall>entry\<in>set dict. \<forall>T\<in>set (snd entry). chain_ok T
     \<Longrightarrow> \<forall>entry\<in>set dict'. \<forall>T\<in>set (snd entry). chain_ok T"
proof (induction idxs arbitrary: nodes dict)
  case Nil
  then show ?case by simp
next
  case (Cons i rest)
  let ?d1 = "initiateNewSubSlicesList dict (nodes ! i)"
  have ok1: "\<forall>entry\<in>set ?d1. \<forall>T\<in>set (snd entry). chain_ok T"
    using Cons.prems(2) by (rule initiateNewSubSlicesList_ok)
  from Cons.prems(1) have inr: "i < length nodes"
    by (cases "i < length nodes") simp_all
  show ?case
  proof (cases "sliceSubSetName (nodes ! i) = []")
    case False
    with Cons.prems(1) inr have "sliceRunner_for rest nodes ?d1 = Inr (nodes', dict')"
      by (simp add: Let_def)
    from Cons.IH [OF this ok1] show ?thesis .
  next
    case True
    show ?thesis
    proof (cases "touches_other_slice nodes (nodes ! i) (neighboursIndices (nodes ! i))")
      case (Inl e)
      with Cons.prems(1) inr True show ?thesis by (simp add: Let_def)
    next
      case (Inr t)
      show ?thesis
      proof (cases t)
        case False
        with Cons.prems(1) inr True Inr have "sliceRunner_for rest nodes ?d1 = Inr (nodes', dict')"
          by (simp add: Let_def)
        from Cons.IH [OF this ok1] show ?thesis .
      next
        case t: True
        with Cons.prems(1) inr True Inr obtain r where
          r: "newSubSlice nodes ?d1 i = Inr r"
          and run: "sliceRunner_for rest (fst r) (snd r) = Inr (nodes', dict')"
          by (cases "newSubSlice nodes ?d1 i") (simp_all add: Let_def)
        from r have "newSubSlice nodes ?d1 i = Inr (fst r, snd r)" by simp
        from newSubSlice_ok [OF this ok1] have "\<forall>entry\<in>set (snd r). \<forall>T\<in>set (snd entry). chain_ok T" .
        from Cons.IH [OF run this] show ?thesis .
      qed
    qed
  qed
qed

lemma run_chain_ok:
  assumes "run_slicing vs es npNormal nameBase = Inr obj"
    and "entry \<in> set (subSlicesDict obj)" and "S \<in> set (snd entry)"
  shows "set (reducedSlice S) \<subseteq> set (sliceSubSetNodes S)
         \<and> reducedSlice S \<noteq> [] \<and> hd (reducedSlice S) = initialNodeIndex S"
proof -
  from assms(1) obtain obj0 where o0: "SlicerSoliton_init vs es npNormal = Inr obj0"
    by (cases "SlicerSoliton_init vs es npNormal") (simp_all add: run_slicing_def)
  from assms(1) o0 obtain obj1 where o1: "slicer (setSliceNameBase obj0 nameBase) = Inr obj1"
    and o2: "sliceRunner obj1 = Inr obj"
    by (cases "slicer (setSliceNameBase obj0 nameBase)") (simp_all add: run_slicing_def)
  from o0 have d0: "subSlicesDict obj0 = []"
    by (auto simp: SlicerSoliton_init_def Let_def split: sum.splits)
  from o1 have d1: "subSlicesDict obj1 = subSlicesDict (setSliceNameBase obj0 nameBase)"
    by (auto simp: slicer_def split: list.splits if_splits option.splits sum.splits)
  from d0 d1 have e: "subSlicesDict obj1 = []" by (simp add: setSliceNameBase_def)
  from o2 obtain r where r: "sliceRunner_for (sortedNodesIndices obj1) (nodesArr obj1) [] = Inr r"
    and obj: "subSlicesDict obj = snd r"
    using e by (cases "sliceRunner_for (sortedNodesIndices obj1) (nodesArr obj1) []")
               (auto simp: sliceRunner_def)
  from r have "sliceRunner_for (sortedNodesIndices obj1) (nodesArr obj1) [] = Inr (fst r, snd r)"
    by simp
  from sliceRunner_for_ok [OF this] have "\<forall>entry\<in>set (snd r). \<forall>T\<in>set (snd entry). chain_ok T"
    by simp
  with obj assms(2,3) have "chain_ok S" by auto
  then show ?thesis by (simp add: chain_ok_def)
qed


section \<open>Claims about the reducer\<close>

lemma line3_bfs:
  "bfs (SliceSubSet_init (line3_nodes_sliced ! 1) 1 0) 1 line3_nodes_sliced
     = Inr (line3_nodes_bfs, line3_subset0_bfs)"
  by (simp add: line3_nodes_sliced_def line3_nodes_bfs_def line3_subset0_bfs_def
        Let_def mkNode_def SliceSubSet_init_def bfs_def addNode_def nodeSubSetName_def
        getOwnName_def setSliceSubSetName_def str_nat_0)

lemma line3_reducer:
  "reducer line3_subset0_bfs line3_nodes_bfs
     = Inr (line3_nodes_bfs[1 := markAsVisited (line3_nodes_bfs ! 1),
                            0 := markAsVisited (line3_nodes_bfs ! 0)], line3_subset0)"
  by (simp add: line3_nodes_bfs_def line3_subset0_bfs_def line3_subset0_def
        Let_def mkNode_def nodeSubSetName_def getOwnName_def
        reducer_def addToReducedSlice_def markAsVisited_def str_nat_0)

lemma line3_rerun:
  "reducer line3_subset0 line3_nodes_final
     = Inr (line3_nodes_final, line3_subset0\<lparr>reducedSlice := [1, 1, 1]\<rparr>)"
  by (simp add: line3_nodes_final_def line3_subset0_def
        Let_def mkNode_def nodeSubSetName_def getOwnName_def
        reducer_def addToReducedSlice_def markAsVisited_def str_nat_0)

text \<open>
  Claim C2, as stated, fails: the reducer appends the seed to the chain before it looks
  at any flag. The first subset of the run on the path has been reduced to the chain
  \<open>[1, 1]\<close> and all its members are visited; a second call gives \<open>[1, 1, 1]\<close>.
\<close>

theorem reducer_rerun_counterexample:
  "run_slicing line3_vertices line3_edges (0, 0, 1) ''slice'' = Inr line3_obj2
   \<and> nodesArr line3_obj2 = line3_nodes_final
   \<and> map_of (subSlicesDict line3_obj2) ''slice0'' = Some [line3_subset0]
   \<and> list_all (\<lambda>i. visited (line3_nodes_final ! i)) (sliceSubSetNodes line3_subset0)
   \<and> reducedSlice line3_subset0 = [1, 1]
   \<and> reducer line3_subset0 line3_nodes_final
       = Inr (line3_nodes_final, line3_subset0\<lparr>reducedSlice := [1, 1, 1]\<rparr>)"
  by (simp add: line3_run line3_rerun)
     (simp add: line3_obj2_def line3_subset0_def line3_nodes_final_def mkNode_def)

text \<open>
  Claim C2, amended. When every member of a subset is visited (and the ids the call reads
  are in range), running the reducer again changes no vertex and appends exactly one id
  to the reduced chain: the seed.
\<close>

theorem reducer_rerun_appends_seed:
  assumes "\<forall>i\<in>set (sliceSubSetNodes s). i < length nodes \<and> visited (nodes ! i)"
    and "initialNodeIndex s < length nodes"
    and "\<forall>j\<in>set (neighboursIndices (nodes ! initialNodeIndex s)). j < length nodes"
  shows "reducer s nodes = Inr (nodes, s\<lparr>reducedSlice := reducedSlice s @ [initialNodeIndex s]\<rparr>)"
proof -
  from pick_strategy_total [OF assms(3)] obtain st where
    st: "pick_strategy nodes (nodes ! initialNodeIndex s)
           (neighboursIndices (nodes ! initialNodeIndex s)) = Inr st"
    by blast
  have "reducer_for st (sliceSubSetNodes (addToReducedSlice s (initialNodeIndex s))) nodes
          (addToReducedSlice s (initialNodeIndex s))
        = Inr (nodes, addToReducedSlice s (initialNodeIndex s))"
    using assms(1) by (intro reducer_for_visited) (simp add: addToReducedSlice_def)
  with st assms(2) show ?thesis
    by (simp add: reducer_def Let_def addToReducedSlice_def)
qed

theorem reducer_rerun_appends_seed_witness:
  "reducer line3_subset1 line3_nodes_final
     = Inr (line3_nodes_final, line3_subset1\<lparr>reducedSlice := [2, 2, 2]\<rparr>)"
proof -
  have a: "\<forall>i\<in>set (sliceSubSetNodes line3_subset1).
             i < length line3_nodes_final \<and> visited (line3_nodes_final ! i)"
    by (simp add: line3_subset1_def line3_nodes_final_def mkNode_def)
  have b: "initialNodeIndex line3_subset1 < length line3_nodes_final"
    by (simp add: line3_subset1_def line3_nodes_final_def)
  have c: "\<forall>j\<in>set (neighboursIndices (line3_nodes_final ! initialNodeIndex line3_subset1)).
             j < length line3_nodes_final"
    by (simp add: line3_subset1_def line3_nodes_final_def mkNode_def)
  from reducer_rerun_appends_seed [OF a b c] show ?thesis
    by (simp add: line3_subset1_def)
qed

text \<open>
  Claim C4, as stated, fails: the filter keeps every neighbour whose subset label differs
  from the name of the subset, and the empty label of a neighbour that belongs to no
  subset differs from it. On the path, when the first subset is reduced, vertex 2 has no
  subset yet and is the candidate of vertex 1.
\<close>

theorem candidates_counterexample:
  "bfs (SliceSubSet_init (line3_nodes_sliced ! 1) 1 0) 1 line3_nodes_sliced
     = Inr (line3_nodes_bfs, line3_subset0_bfs)
   \<and> sliceSubSetName (line3_nodes_bfs ! 2) = []
   \<and> candidatIndices (line3_nodes_bfs[1 := markAsVisited (line3_nodes_bfs ! 1)])
        (getOwnName line3_subset0_bfs) (neighboursIndices (line3_nodes_bfs ! 1)) = Inr [2]
   \<and> spec_candidates (line3_nodes_bfs[1 := markAsVisited (line3_nodes_bfs ! 1)])
        (getOwnName line3_subset0_bfs) (neighboursIndices (line3_nodes_bfs ! 1)) = []"
proof -
  have "sliceSubSetName (line3_nodes_bfs ! 2) = []"
    by (simp add: line3_nodes_bfs_def mkNode_def)
  moreover have "candidatIndices (line3_nodes_bfs[1 := markAsVisited (line3_nodes_bfs ! 1)])
        (getOwnName line3_subset0_bfs) (neighboursIndices (line3_nodes_bfs ! 1)) = Inr [2]"
    by (simp add: line3_nodes_bfs_def line3_subset0_bfs_def mkNode_def getOwnName_def
          nodeSubSetName_def str_nat_0 markAsVisited_def)
  moreover have "spec_candidates (line3_nodes_bfs[1 := markAsVisited (line3_nodes_bfs ! 1)])
        (getOwnName line3_subset0_bfs) (neighboursIndices (line3_nodes_bfs ! 1)) = []"
    by (simp add: line3_nodes_bfs_def line3_subset0_bfs_def mkNode_def getOwnName_def
          nodeSubSetName_def str_nat_0 spec_candidates_def markAsVisited_def)
  ultimately show ?thesis using line3_bfs by blast
qed

text \<open>
  Claim C4, amended. For a member \<open>i\<close> that the second loop of the reducer processes
  (its neighbour ids being in range), the candidates computed are exactly its neighbours,
  in order, whose subset label differs from the name of the subset being reduced; a
  neighbour with no subset label is among them.
\<close>

theorem candidates_are_differently_labelled:
  assumes "\<forall>j\<in>set (neighboursIndices (nodes ! i)). j < length nodes"
  shows "candidatIndices (nodes[i := markAsVisited (nodes ! i)]) (getOwnName s)
           (neighboursIndices (nodes ! i))
         = Inr (filter (\<lambda>j. sliceSubSetName (nodes ! j) \<noteq> getOwnName s)
                  (neighboursIndices (nodes ! i)))
       \<and> (\<forall>j\<in>set (neighboursIndices (nodes ! i)). sliceSubSetName (nodes ! j) = [] \<longrightarrow>
            j \<in> set (filter (\<lambda>j. sliceSubSetName (nodes ! j) \<noteq> getOwnName s)
                       (neighboursIndices (nodes ! i))))"
  using candidatIndices_filter [OF assms, of "getOwnName s"] getOwnName_nonempty [of s]
  by auto

theorem candidates_are_differently_labelled_witness:
  "candidatIndices (line3_nodes_bfs[1 := markAsVisited (line3_nodes_bfs ! 1)])
        (getOwnName line3_subset0_bfs) (neighboursIndices (line3_nodes_bfs ! 1)) = Inr [2]
   \<and> neighboursIndices (line3_nodes_bfs ! 1) = [0, 2]
   \<and> sliceSubSetName (line3_nodes_bfs ! 0) = getOwnName line3_subset0_bfs
   \<and> sliceSubSetName (line3_nodes_bfs ! 2) = []"
proof -
  have a: "\<forall>j\<in>set (neighboursIndices (line3_nodes_bfs ! 1)). j < length line3_nodes_bfs"
    by (simp add: line3_nodes_bfs_def mkNode_def)
  from candidates_are_differently_labelled [OF a, of line3_subset0_bfs] show ?thesis
    by (simp add: line3_nodes_bfs_def line3_subset0_bfs_def mkNode_def getOwnName_def
          nodeSubSetName_def str_nat_0)
qed

lemma count_list_distinct:
  "distinct xs \<Longrightarrow> count_list xs x = (if x \<in> set xs then 1 else 0)"
  by (induction xs) auto

lemma seed_kept_twice_unvisited:
  assumes b: "bfs (SliceSubSet_init seedNode i k) i nodes = Inr (nodes1, s1)"
    and r: "reducer s1 nodes1 = Inr (nodes2, s2)"
    and unv: "\<not> visited (nodes ! i)"
    and st: "pick_strategy nodes1 (nodes1 ! i) (neighboursIndices (nodes1 ! i)) = Inr strategy"
    and c: "candidatIndices nodes1 (getOwnName s1) (neighboursIndices (nodes1 ! i)) = Inr cands"
    and ne: "cands \<noteq> []"
    and sel: "apply_strategy strategy (cands @ [i]) (\<lambda>index. rotatedZ (nodes1 ! index))
                = Inr resultIndex"
    and other: "resultIndex \<noteq> i"
  shows "count_list (reducedSlice s2) i = 2"
proof -
  from bfs_result(1) [OF b] obtain ys where
    s1: "s1 = (SliceSubSet_init seedNode i k)\<lparr>sliceSubSetNodes := i # ys\<rparr>"
    by (auto simp: SliceSubSet_init_def)
  then have seed: "initialNodeIndex s1 = i" and chain1: "reducedSlice s1 = []"
    and mem: "i \<in> set (sliceSubSetNodes s1)"
    by (simp_all add: SliceSubSet_init_def)
  from bfs_result(3) [OF b] unv have unv1: "\<not> visited (nodes1 ! i)" by simp
  from bfs_result(2,4) [OF b] have inr: "i < length nodes1" by simp
  let ?s = "addToReducedSlice s1 i"
  from r st seed inr have run: "reducer_for strategy (sliceSubSetNodes ?s) nodes1 ?s = Inr (nodes2, s2)"
    by (simp add: reducer_def Let_def)
  have k: "keeps strategy nodes1 (getOwnName ?s) i"
    using c ne sel other by (simp add: keeps_def)
  have m: "i \<in> set (sliceSubSetNodes ?s)"
    using mem by (simp add: addToReducedSlice_def)
  from reducer_for_chain [OF run] obtain zs where
    zs: "s2 = ?s\<lparr>reducedSlice := reducedSlice ?s @ zs\<rparr>" "distinct zs"
    by blast
  from reducer_for_keeps [OF run m unv1 k] zs(1) have "i \<in> set zs" by simp
  with zs(2) have "count_list zs i = 1" by (simp add: count_list_distinct)
  with zs(1) chain1 show ?thesis by (simp add: addToReducedSlice_def)
qed


section \<open>The classifier\<close>

lemma nth_setSliceName:
  "nodes[m := setSliceName (nodes ! m) nm] ! k
     = (if k = m \<and> m < length nodes then setSliceName (nodes ! m) nm else nodes ! k)"
proof (cases "m < length nodes")
  case True
  then show ?thesis by (simp add: nth_list_update)
next
  case False
  then show ?thesis by (simp add: list_update_beyond)
qed

lemma setSliceName_rotatedZ [simp]:
  "rotatedZ (nodes[m := setSliceName (nodes ! m) nm] ! k) = rotatedZ (nodes ! k)"
  unfolding nth_setSliceName by (simp add: setSliceName_def)

lemma slicer_history_cong:
  "length nodes' = length nodes \<Longrightarrow> \<forall>k. rotatedZ (nodes' ! k) = rotatedZ (nodes ! k)
     \<Longrightarrow> slicer_history base thr idxs nodes' b n = slicer_history base thr idxs nodes b n"
proof (induction idxs arbitrary: nodes nodes' b n)
  case Nil
  then show ?case by simp
next
  case (Cons i rest)
  have a: "slicer_history base thr rest (nodes'[i := setSliceName (nodes' ! i) nm]) b' n'
             = slicer_history base thr rest (nodes[i := setSliceName (nodes ! i) nm]) b' n'"
    for nm b' n'
    using Cons.prems by (intro Cons.IH) simp_all
  from Cons.prems a show ?case by (simp add: Let_def)
qed

lemma slicer_history_update [simp]:
  "slicer_history base thr idxs (nodes[i := setSliceName (nodes ! i) nm]) b n
     = slicer_history base thr idxs nodes b n"
  by (rule slicer_history_cong) simp_all

lemma slicer_history_Cons:
  "slicer_history base thr (i # rest) nodes b n =
     (if i < length nodes then
        (if \<bar>rotatedZ (nodes ! b) - rotatedZ (nodes ! i)\<bar> \<le> thr
         then (i, bandName base n, b) # slicer_history base thr rest nodes b n
         else (i, bandName base (n + 1), b) # slicer_history base thr rest nodes i (n + 1))
      else [])"
  by (simp add: Let_def)

lemma slicer_history_indices:
  "\<forall>i\<in>set idxs. i < length nodes \<Longrightarrow> map fst (slicer_history base thr idxs nodes b n) = idxs"
  by (induction idxs arbitrary: b n) (simp_all add: slicer_history_Cons del: slicer_history.simps(2))

lemma bandName_nonempty: "bandName base n \<noteq> []"
  by (simp add: bandName_def str_nat_nonempty)

lemma slicer_history_labels:
  "(v, nm, a) \<in> set (slicer_history base thr idxs nodes b n) \<Longrightarrow> nm \<noteq> []"
proof (induction idxs arbitrary: b n)
  case Nil
  then show ?case by simp
next
  case (Cons i rest)
  then show ?case
    by (auto simp: slicer_history_Cons bandName_nonempty bandName_nonempty [THEN not_sym]
          simp del: slicer_history.simps split: if_splits)
qed

lemma slicer_for_Cons:
  "slicer_for base thr (i # rest) nodes b n =
     (if i < length nodes then
        (if \<bar>rotatedZ (nodes ! b) - rotatedZ (nodes ! i)\<bar> \<le> thr
         then slicer_for base thr rest (slicer_write nodes (i, bandName base n, b)) b n
         else slicer_for base thr rest (slicer_write nodes (i, bandName base (n + 1), b)) i (n + 1))
      else Inl IndexError)"
  by (simp add: Let_def slicer_write_def)

lemma slicer_write_length [simp]: "length (slicer_write nodes w) = length nodes"
  by (simp add: slicer_write_def)

lemma slicer_write_rotatedZ [simp]: "rotatedZ (slicer_write nodes w ! k) = rotatedZ (nodes ! k)"
  by (simp add: slicer_write_def)

lemma slicer_history_write [simp]:
  "slicer_history base thr idxs (slicer_write nodes w) b n = slicer_history base thr idxs nodes b n"
  by (simp add: slicer_write_def)

lemma slicer_for_history:
  "\<forall>i\<in>set idxs. i < length nodes
     \<Longrightarrow> slicer_for base thr idxs nodes b n
           = Inr (foldl slicer_write nodes (slicer_history base thr idxs nodes b n))"
proof (induction idxs arbitrary: nodes b n)
  case Nil
  then show ?case by simp
next
  case (Cons i rest)
  have "slicer_for base thr rest (slicer_write nodes w) b' n'
          = Inr (foldl slicer_write (slicer_write nodes w) (slicer_history base thr rest nodes b' n'))"
    for w b' n'
    using Cons.IH [of "slicer_write nodes w" b' n'] Cons.prems by simp
  with Cons.prems show ?case
    by (simp add: slicer_for_Cons slicer_history_Cons del: slicer_for.simps slicer_history.simps)
qed

lemma foldl_slicer_write_other:
  "v \<notin> fst ` set ws \<Longrightarrow> foldl slicer_write nodes ws ! v = nodes ! v"
  by (induction ws arbitrary: nodes) (auto simp: slicer_write_def)

lemma foldl_slicer_write_label:
  "distinct (map fst ws) \<Longrightarrow> (v, nm, a) \<in> set ws \<Longrightarrow> v < length nodes
     \<Longrightarrow> sliceName (foldl slicer_write nodes ws ! v) = nm"
proof (induction ws arbitrary: nodes)
  case Nil
  then show ?case by simp
next
  case (Cons w ws)
  show ?case
  proof (cases "w = (v, nm, a)")
    case True
    with Cons.prems(1) have "v \<notin> fst ` set ws" by auto
    from foldl_slicer_write_other [OF this] have
      "foldl slicer_write (slicer_write nodes w) ws ! v = slicer_write nodes w ! v" .
    moreover from True Cons.prems(3) have "sliceName (slicer_write nodes w ! v) = nm"
      by (simp add: slicer_write_def setSliceName_def)
    ultimately show ?thesis by simp
  next
    case False
    with Cons.prems have "distinct (map fst ws)" "(v, nm, a) \<in> set ws"
      "v < length (slicer_write nodes w)"
      by auto
    from Cons.IH [OF this] show ?thesis by simp
  qed
qed

lemma dot_self_nonneg: "0 \<le> dot v v"
  by (cases v rule: prod_cases3) (simp add: dot_def)

lemma init_facts:
  assumes "SlicerSoliton_init vs es npNormal = Inr obj0"
  shows "length (nodesArr obj0) = length vs"
    and "sortedNodesIndices obj0
           = sort_key (\<lambda>index. rotatedZ (map (\<lambda>vertex. Node_init vertex npNormal) vs ! index))
               [0 ..< length vs]"
    and "0 \<le> maxRotatedZ obj0"
    and "vs \<noteq> []"
    and "sliceNameBase obj0 = None" and "subSlicesDict obj0 = []"
proof -
  let ?n0 = "map (\<lambda>vertex. Node_init vertex npNormal) vs"
  from assms obtain nodes where g: "buildGraph es ?n0 = Inr nodes"
    by (cases "buildGraph es ?n0") (simp_all add: SlicerSoliton_init_def Let_def)
  from assms g obtain len where c: "cubeEdgeLengthEval nodes = Inr len"
    by (cases "cubeEdgeLengthEval nodes") (simp_all add: SlicerSoliton_init_def Let_def)
  from assms g c have obj0: "obj0 = \<lparr> sliceDirection = npNormal, initialBpyNodes = vs,
        initialBpyEdges = es, nodesArr = nodes,
        sortedNodesIndices = sort_key (\<lambda>index. rotatedZ (?n0 ! index)) [0 ..< length vs],
        cubeEdgeLength = len, maxRotatedZ = logestDiagonalLength len,
        sliceNameBase = None, subSlicesDict = [] \<rparr>"
    by (simp add: SlicerSoliton_init_def Let_def)
  from obj0 buildGraph_length [OF g] show "length (nodesArr obj0) = length vs" by simp
  from obj0 show "sortedNodesIndices obj0 = sort_key (\<lambda>index. rotatedZ (?n0 ! index)) [0 ..< length vs]"
    by simp
  from c have "0 \<le> len"
    by (auto simp: cubeEdgeLengthEval_def Let_def dot_self_nonneg split: list.splits if_splits)
  with obj0 show "0 \<le> maxRotatedZ obj0" by (simp add: logestDiagonalLength_def)
  from c buildGraph_length [OF g] show "vs \<noteq> []"
    by (auto simp: cubeEdgeLengthEval_def)
  from obj0 show "sliceNameBase obj0 = None" "subSlicesDict obj0 = []" by simp_all
qed

lemma line3_history:
  "classifier_history line3_obj0 ''slice''
     = [(0, ''slice0'', 0), (1, ''slice0'', 0), (2, ''slice1'', 0)]"
  by (simp add: classifier_history_def line3_obj0_def line3_nodes_init_def mkNode_def
        Let_def bandName_def str_nat_0 str_nat_Suc_0 setSliceName_def)

lemma init_sorted:
  assumes "SlicerSoliton_init vs es npNormal = Inr obj0"
  shows "set (sortedNodesIndices obj0) = {0 ..< length vs}"
    and "distinct (sortedNodesIndices obj0)"
    and "sortedNodesIndices obj0 \<noteq> []"
    and "hd (sortedNodesIndices obj0) < length (nodesArr obj0)"
proof -
  from init_facts(2) [OF assms] show s: "set (sortedNodesIndices obj0) = {0 ..< length vs}"
    and "distinct (sortedNodesIndices obj0)"
    by simp_all
  from init_facts(4) [OF assms] s show ne: "sortedNodesIndices obj0 \<noteq> []"
    by (cases "sortedNodesIndices obj0") auto
  then have "hd (sortedNodesIndices obj0) \<in> set (sortedNodesIndices obj0)" by simp
  with s init_facts(1) [OF assms] show "hd (sortedNodesIndices obj0) < length (nodesArr obj0)"
    by simp
qed

text \<open>
  Claim C6. After a successful construction the classifier runs to its end, and what it
  does to the node array is the list of writes \<open>classifier_history\<close>: every vertex of
  the mesh occurs exactly once in that list, and the band label it has afterwards is the
  one written there and is not empty.
\<close>

theorem every_vertex_labelled_once:
  assumes init: "SlicerSoliton_init vs es npNormal = Inr obj0"
  shows "\<exists>obj. slicer (setSliceNameBase obj0 nameBase) = Inr obj
           \<and> nodesArr obj = foldl slicer_write (nodesArr obj0) (classifier_history obj0 nameBase)
           \<and> (\<forall>v<length vs.
                 count_list (map fst (classifier_history obj0 nameBase)) v = 1
                 \<and> sliceName (nodesArr obj ! v) \<noteq> []
                 \<and> (\<exists>a. (v, sliceName (nodesArr obj ! v), a)
                           \<in> set (classifier_history obj0 nameBase)))"
proof -
  let ?idxs = "sortedNodesIndices obj0"
  let ?H = "classifier_history obj0 nameBase"
  let ?final = "foldl slicer_write (nodesArr obj0) ?H"
  note s = init_sorted [OF init]
  note f = init_facts [OF init]
  from s(3) obtain i0 rest where idxs: "?idxs = i0 # rest"
    by (cases ?idxs) auto
  with s(4) have i0: "i0 < length (nodesArr obj0)" by simp
  have inr: "\<forall>i\<in>set ?idxs. i < length (nodesArr obj0)"
    using s(1) f(1) by simp
  from slicer_for_history [OF inr]
  have run: "slicer_for nameBase (maxRotatedZ obj0) ?idxs (nodesArr obj0) i0 0 = Inr ?final"
    using idxs by (simp add: classifier_history_def)
  have sl: "slicer (setSliceNameBase obj0 nameBase) = Inr (setSliceNameBase obj0 nameBase\<lparr>nodesArr := ?final\<rparr>)"
    using idxs i0 run by (simp add: slicer_def setSliceNameBase_def del: slicer_for.simps)
  have fstH: "map fst ?H = ?idxs"
    unfolding classifier_history_def by (rule slicer_history_indices [OF inr])
  have each: "count_list (map fst ?H) v = 1 \<and> sliceName (?final ! v) \<noteq> []
                \<and> (\<exists>a. (v, sliceName (?final ! v), a) \<in> set ?H)"
    if v: "v < length vs" for v
  proof -
    from v s(1) have mem: "v \<in> set ?idxs" by simp
    with s(2) fstH have c: "count_list (map fst ?H) v = 1"
      by (simp add: count_list_distinct)
    from mem fstH have "v \<in> fst ` set ?H" by (metis set_map)
    then obtain nm a where w: "(v, nm, a) \<in> set ?H" by force
    from s(2) fstH have "distinct (map fst ?H)" by simp
    from foldl_slicer_write_label [OF this w] v f(1) have l: "sliceName (?final ! v) = nm"
      by simp
    from w have "nm \<noteq> []"
      unfolding classifier_history_def by (rule slicer_history_labels)
    with c l w show ?thesis by auto
  qed
  from sl each show ?thesis by auto
qed

theorem every_vertex_labelled_once_witness:
  "slicer (setSliceNameBase line3_obj0 ''slice'') = Inr line3_obj1
   \<and> classifier_history line3_obj0 ''slice''
       = [(0, ''slice0'', 0), (1, ''slice0'', 0), (2, ''slice1'', 0)]
   \<and> count_list (map fst (classifier_history line3_obj0 ''slice'')) 2 = 1
   \<and> sliceName (nodesArr line3_obj1 ! 2) \<noteq> []"
proof -
  from every_vertex_labelled_once [OF line3_init, of "''slice''"] line3_slicer
  have "\<forall>v<length line3_vertices.
          count_list (map fst (classifier_history line3_obj0 ''slice'')) v = 1
          \<and> sliceName (nodesArr line3_obj1 ! v) \<noteq> []"
    by auto
  moreover have "2 < length line3_vertices" by (simp add: line3_vertices_def)
  ultimately have "count_list (map fst (classifier_history line3_obj0 ''slice'')) 2 = 1
          \<and> sliceName (nodesArr line3_obj1 ! 2) \<noteq> []"
    by blast
  with line3_slicer line3_history show ?thesis by blast
qed

section \<open>Scenario A: the unit cube\<close>

lemma cube_init: "SlicerSoliton_init cube_vertices cube_edges (0, 0, 1) = Inr cube_obj0"
  by (simp add: SlicerSoliton_init_def cube_vertices_def cube_edges_def bv_def Node_init_def
        dot_def vsub_def Let_def addNeighbourIndex_def cubeEdgeLengthEval_def
        logestDiagonalLength_def mkNode_def upt_rec cube_obj0_def cube_nodes_def)

lemma cube_slicer: "slicer (setSliceNameBase cube_obj0 ''slice'') = Inr cube_obj1"
  by (simp add: slicer_def setSliceNameBase_def cube_obj0_def cube_obj1_def cube_nodes_def
        Let_def mkNode_def setSliceName_def bandName_def str_nat_0)

lemma cube_sliceRunner: "sliceRunner cube_obj1 = Inr cube_obj2"
  by (simp add: sliceRunner_def cube_obj0_def cube_obj1_def cube_obj2_def cube_nodes_def
        Let_def mkNode_def initiateNewSubSlicesList_def)

lemma cube_run: "run_slicing cube_vertices cube_edges (0, 0, 1) ''slice'' = Inr cube_obj2"
  unfolding run_slicing_def
  by (simp only: cube_init cube_slicer cube_sliceRunner sum.case)

text \<open>
  Claim C1, as stated, fails. The threshold is the spacing times \<open>sqrt 3\<close>, larger than
  the distance 1 between the two layers of the cube, so the classifier never opens a
  second band: the run ends with the single band \<open>slice0\<close>, not with two.
\<close>

theorem cube_two_bands_counterexample:
  "run_slicing cube_vertices cube_edges (0, 0, 1) ''slice'' = Inr cube_obj2
   \<and> remdups (map sliceName (nodesArr cube_obj2)) = [''slice0'']
   \<and> map fst (subSlicesDict cube_obj2) = [''slice0'']
   \<and> length (subSlicesDict cube_obj2) \<noteq> 2"
proof -
  have "remdups (map sliceName (nodesArr cube_obj2)) = [''slice0'']"
    by (simp add: cube_obj2_def cube_obj1_def cube_nodes_def mkNode_def)
  moreover have "map fst (subSlicesDict cube_obj2) = [''slice0'']"
    by (simp add: cube_obj2_def)
  moreover have "length (subSlicesDict cube_obj2) \<noteq> 2"
    by (simp add: cube_obj2_def)
  ultimately show ?thesis using cube_run by blast
qed

text \<open>
  Claim C1, amended. On the unit cube sliced along \<open>(0, 0, 1)\<close> the run succeeds with
  spacing unit 1 and threshold \<open>sqrt 3\<close>, between 1.732 and 1.733; the classifier puts
  all eight vertices, both layers, into the one band \<open>slice0\<close>; no vertex has a
  neighbour in another band, so no subset is created and the subset list of the band is
  empty.
\<close>

theorem cube_single_band:
  "run_slicing cube_vertices cube_edges (0, 0, 1) ''slice'' = Inr cube_obj2
   \<and> cubeEdgeLength cube_obj2 = 1
   \<and> 1732 / 1000 < maxRotatedZ cube_obj2 \<and> maxRotatedZ cube_obj2 < 1733 / 1000
   \<and> map sliceName (nodesArr cube_obj2) = replicate 8 ''slice0''
   \<and> map rotatedZ (nodesArr cube_obj2) = [0, 0, 0, 0, 1, 1, 1, 1]
   \<and> subSlicesDict cube_obj2 = [(''slice0'', [])]"
proof -
  have "cubeEdgeLength cube_obj2 = 1"
    by (simp add: cube_obj2_def cube_obj1_def cube_obj0_def)
  moreover have "1732 / 1000 < maxRotatedZ cube_obj2" "maxRotatedZ cube_obj2 < 1733 / 1000"
    using sqrt3_bounds by (simp_all add: cube_obj2_def cube_obj1_def cube_obj0_def)
  moreover have "map sliceName (nodesArr cube_obj2) = replicate 8 ''slice0''"
    by (simp add: cube_obj2_def cube_obj1_def cube_nodes_def mkNode_def numeral_eq_Suc)
  moreover have "map rotatedZ (nodesArr cube_obj2) = [0, 0, 0, 0, 1, 1, 1, 1]"
    by (simp add: cube_obj2_def cube_obj1_def cube_nodes_def mkNode_def)
  moreover have "subSlicesDict cube_obj2 = [(''slice0'', [])]"
    by (simp add: cube_obj2_def)
  ultimately show ?thesis using cube_run by blast
qed

section \<open>The highlighter\<close>

lemma highlight_listed_missing:
  "py_index subSlicesArr index = Inl IndexError
     \<Longrightarrow> highlight_listed (index # rest) subSlicesArr bpyNodes = (bpyNodes, Some IndexError)"
  by simp

lemma line3_highlight:
  "slicesHighlighter line3_obj2 0 [0, 5]
     = (line3_obj2\<lparr>initialBpyNodes := [bv 0 0 0, (bv 0 0 1)\<lparr>select := True\<rparr>, bv 0 0 3]\<rparr>,
        Some IndexError)"
  by (simp add: slicesHighlighter_def py_index_def Let_def line3_obj2_def line3_obj1_def
        line3_obj0_def line3_subset0_def line3_vertices_def)

text \<open>
  Claim C3, as stated, fails for the subset indices. The list \<open>[0, 5]\<close> names a subset
  that exists and one that does not: the call raises \<open>IndexError\<close> at the second, after
  it has set the selection flag of vertex 1 for the first.
\<close>

theorem highlighter_counterexample:
  "py_index [line3_subset0] 5 = Inl IndexError
   \<and> snd (slicesHighlighter line3_obj2 0 [0, 5]) = Some IndexError
   \<and> fst (slicesHighlighter line3_obj2 0 [0, 5]) \<noteq> line3_obj2
   \<and> \<not> select (initialBpyNodes line3_obj2 ! 1)
   \<and> select (initialBpyNodes (fst (slicesHighlighter line3_obj2 0 [0, 5])) ! 1)"
  by (simp add: line3_highlight py_index_def)
     (simp add: line3_obj2_def line3_obj1_def line3_obj0_def line3_vertices_def bv_def)

text \<open>
  Claim C3, amended. A band index that is not a position of the list of bands (at least
  its length or, counted from the end, before its start) makes the call raise
  \<open>IndexError\<close> and leaves the object, the selection flags included, as it was.
\<close>

theorem highlighter_band_out_of_range:
  assumes "int (length (subSlicesDict obj)) \<le> sliceIndex
           \<or> sliceIndex < - int (length (subSlicesDict obj))"
  shows "slicesHighlighter obj sliceIndex subSlicesIndices = (obj, Some IndexError)"
  using assms by (auto simp: slicesHighlighter_def py_index_def Let_def)

theorem highlighter_band_out_of_range_witness:
  "slicesHighlighter line3_obj2 20 [] = (line3_obj2, Some IndexError)
   \<and> length (subSlicesDict line3_obj2) = 2"
proof -
  have l: "length (subSlicesDict line3_obj2) = 2"
    by (simp add: line3_obj2_def)
  then have "int (length (subSlicesDict line3_obj2)) \<le> 20
           \<or> 20 < - int (length (subSlicesDict line3_obj2))"
    by simp
  from highlighter_band_out_of_range [OF this] l show ?thesis by blast
qed

section \<open>Invariants of a run\<close>

lemma relabelled_refl [simp]: "relabelled nodes nodes"
  by (simp add: relabelled_def)

lemma relabelled_trans: "relabelled a b \<Longrightarrow> relabelled b c \<Longrightarrow> relabelled a c"
  by (auto simp: relabelled_def)

lemma label_subset_name:
  "sliceSubSetName (nodes[m := setSliceSubSetName (nodes ! m) nm] ! k)
     = (if k = m \<and> m < length nodes then nm else sliceSubSetName (nodes ! k))"
  unfolding nth_label by (simp add: setSliceSubSetName_def)

lemma relabelled_label:
  "sliceSubSetName (nodes ! m) = []
     \<Longrightarrow> relabelled nodes (nodes[m := setSliceSubSetName (nodes ! m) nm])"
  by (auto simp: relabelled_def label_subset_name)

lemma graph_ok_relabelled: "relabelled nodes nodes' \<Longrightarrow> graph_ok nodes \<Longrightarrow> graph_ok nodes'"
  by (simp add: relabelled_def graph_ok_def)

lemma graph_ok_marked: "marked nodes nodes' \<Longrightarrow> graph_ok nodes \<Longrightarrow> graph_ok nodes'"
  by (simp add: marked_def graph_ok_def)

lemma visited_labelled_relabelled:
  "relabelled nodes nodes' \<Longrightarrow> visited_labelled nodes \<Longrightarrow> visited_labelled nodes'"
  unfolding relabelled_def visited_labelled_def by metis

lemma claimed_relabelled: "relabelled nodes nodes' \<Longrightarrow> claimed nodes xs \<Longrightarrow> claimed nodes' xs"
  unfolding relabelled_def claimed_def by metis

lemma claimed_append [simp]: "claimed nodes (xs @ ys) = (claimed nodes xs \<and> claimed nodes ys)"
  by (auto simp: claimed_def)

lemma bfs_for_frame:
  "bfs_for js nodes q s = Inr (nodes', q', s')
     \<Longrightarrow> relabelled nodes nodes' \<and> subSliceName s' = subSliceName s
         \<and> (claimed nodes (sliceSubSetNodes s) \<longrightarrow> claimed nodes' (sliceSubSetNodes s'))
         \<and> (claimed nodes q \<longrightarrow> claimed nodes' q')"
proof (induction js arbitrary: nodes q s)
  case Nil
  then show ?case by simp
next
  case (Cons j rest)
  from Cons.prems have inr: "j < length nodes"
    by (cases "j < length nodes") simp_all
  show ?case
  proof (cases "sliceSubSetName (nodes ! j) = [] \<and> sliceName (nodes ! j) = subSliceName s")
    case True
    let ?n1 = "nodes[j := setSliceSubSetName (nodes ! j) (getOwnName s)]"
    from True Cons.prems inr have
      run: "bfs_for rest ?n1 (q @ [j]) (addNode s j) = Inr (nodes', q', s')"
      by simp
    from True have rl: "relabelled nodes ?n1" by (simp add: relabelled_label)
    have cj: "claimed ?n1 [j]"
      using inr by (simp add: claimed_def setSliceSubSetName_def getOwnName_nonempty)
    from Cons.IH [OF run] have ih: "relabelled ?n1 nodes'" "subSliceName s' = subSliceName (addNode s j)"
      "claimed ?n1 (sliceSubSetNodes (addNode s j)) \<longrightarrow> claimed nodes' (sliceSubSetNodes s')"
      "claimed ?n1 (q @ [j]) \<longrightarrow> claimed nodes' q'"
      by blast+
    from rl ih(1) have "relabelled nodes nodes'" by (rule relabelled_trans)
    moreover from ih(2) have "subSliceName s' = subSliceName s" by (simp add: addNode_def)
    moreover from ih(3) cj claimed_relabelled [OF rl]
    have "claimed nodes (sliceSubSetNodes s) \<longrightarrow> claimed nodes' (sliceSubSetNodes s')"
      by (simp add: addNode_def)
    moreover from ih(4) cj claimed_relabelled [OF rl]
    have "claimed nodes q \<longrightarrow> claimed nodes' q'"
      by simp
    ultimately show ?thesis by blast
  next
    case False
    with Cons.prems inr have "bfs_for rest nodes q s = Inr (nodes', q', s')"
      by auto
    from Cons.IH [OF this] show ?thesis .
  qed
qed

lemma bfs_while_frame:
  "bfs_while q nodes s = Inr (nodes', s')
     \<Longrightarrow> relabelled nodes nodes' \<and> subSliceName s' = subSliceName s
         \<and> (claimed nodes (sliceSubSetNodes s) \<longrightarrow> claimed nodes q
              \<longrightarrow> claimed nodes' (sliceSubSetNodes s'))"
proof (induction q nodes s rule: bfs_while.induct)
  case (1 nodes s)
  then show ?case by auto
next
  case (2 i bfsQueue nodes s)
  from "2.prems" have inr: "i < length nodes"
    by (cases "i < length nodes") simp_all
  from "2.prems" inr obtain r where
    r: "bfs_for (neighboursIndices (nodes ! i)) nodes bfsQueue s = Inr r"
    and w: "bfs_while (fst (snd r)) (fst r) (snd (snd r)) = Inr (nodes', s')"
    by (cases "bfs_for (neighboursIndices (nodes ! i)) nodes bfsQueue s") simp_all
  from r have "bfs_for (neighboursIndices (nodes ! i)) nodes bfsQueue s
                 = Inr (fst r, fst (snd r), snd (snd r))"
    by simp
  from bfs_for_frame [OF this] have a: "relabelled nodes (fst r)"
    "subSliceName (snd (snd r)) = subSliceName s"
    "claimed nodes (sliceSubSetNodes s) \<longrightarrow> claimed (fst r) (sliceSubSetNodes (snd (snd r)))"
    "claimed nodes bfsQueue \<longrightarrow> claimed (fst r) (fst (snd r))"
    by blast+
  from "2.IH" [OF inr r w] have b: "relabelled (fst r) nodes'"
    "subSliceName s' = subSliceName (snd (snd r))"
    "claimed (fst r) (sliceSubSetNodes (snd (snd r))) \<longrightarrow> claimed (fst r) (fst (snd r))
       \<longrightarrow> claimed nodes' (sliceSubSetNodes s')"
    by blast+
  from a(1) b(1) have "relabelled nodes nodes'" by (rule relabelled_trans)
  moreover from a(2) b(2) have "subSliceName s' = subSliceName s" by simp
  moreover from a(3,4) b(3)
  have "claimed nodes (sliceSubSetNodes s) \<longrightarrow> claimed nodes (i # bfsQueue)
          \<longrightarrow> claimed nodes' (sliceSubSetNodes s')"
    by (simp add: claimed_def)
  ultimately show ?case by blast
qed

lemma bfs_frame:
  assumes b: "bfs (SliceSubSet_init node i k) i nodes = Inr (nodes', s')"
    and un: "sliceSubSetName (nodes ! i) = []"
  shows "relabelled nodes nodes'" and "subSliceName s' = sliceName node"
    and "claimed nodes' (sliceSubSetNodes s')"
proof -
  let ?s1 = "addNode (SliceSubSet_init node i k) i"
  let ?n1 = "nodes[i := setSliceSubSetName (nodes ! i) (nodeSubSetName ?s1)]"
  from bfs_result(4) [OF b] have inr: "i < length nodes" .
  with b have w: "bfs_while [i] ?n1 ?s1 = Inr (nodes', s')"
    by (simp add: bfs_def Let_def)
  from un have rl: "relabelled nodes ?n1" by (simp add: relabelled_label)
  have c: "claimed ?n1 [i]"
    using inr getOwnName_nonempty [of ?s1]
    by (simp add: claimed_def setSliceSubSetName_def getOwnName_def)
  then have c2: "claimed ?n1 (sliceSubSetNodes ?s1)"
    by (simp add: addNode_def SliceSubSet_init_def)
  from bfs_while_frame [OF w] c c2 have f: "relabelled ?n1 nodes'"
    "subSliceName s' = subSliceName ?s1" "claimed nodes' (sliceSubSetNodes s')"
    by blast+
  from rl f(1) show "relabelled nodes nodes'" by (rule relabelled_trans)
  from f(2) show "subSliceName s' = sliceName node"
    by (simp add: addNode_def SliceSubSet_init_def)
  from f(3) show "claimed nodes' (sliceSubSetNodes s')" .
qed

lemma mark_marked: "marked nodes (nodes[m := markAsVisited (nodes ! m)])"
  unfolding marked_def nth_mark by (simp add: markAsVisited_def)

lemma marked_refl [simp]: "marked nodes nodes"
  by (simp add: marked_def)

lemma marked_trans: "marked a b \<Longrightarrow> marked b c \<Longrightarrow> marked a c"
  by (auto simp: marked_def)

lemma reducer_for_frame:
  "reducer_for st ms nodes s = Inr (nodes', s')
     \<Longrightarrow> marked nodes nodes' \<and> subSliceName s' = subSliceName s
         \<and> (\<forall>k. visited (nodes' ! k) \<longrightarrow> visited (nodes ! k) \<or> k \<in> set ms)"
proof (induction ms arbitrary: nodes s)
  case Nil
  then show ?case by simp
next
  case (Cons i rest)
  let ?nodes1 = "if visited (nodes ! i) then nodes else nodes[i := markAsVisited (nodes ! i)]"
  let ?s1 = "if \<not> visited (nodes ! i) \<and> keeps st nodes (getOwnName s) i
             then addToReducedSlice s i else s"
  from reducer_for_step [OF Cons.prems] have inr: "i < length nodes"
    and run: "reducer_for st rest ?nodes1 ?s1 = Inr (nodes', s')"
    by blast+
  from Cons.IH [OF run] have ih: "marked ?nodes1 nodes'" "subSliceName s' = subSliceName ?s1"
    "\<forall>k. visited (nodes' ! k) \<longrightarrow> visited (?nodes1 ! k) \<or> k \<in> set rest"
    by blast+
  have "marked nodes ?nodes1" by (simp add: mark_marked)
  from this ih(1) have "marked nodes nodes'" by (rule marked_trans)
  moreover from ih(2) have "subSliceName s' = subSliceName s"
    by (simp add: addToReducedSlice_def split: if_splits)
  moreover have "\<forall>k. visited (nodes' ! k) \<longrightarrow> visited (nodes ! k) \<or> k \<in> set (i # rest)"
    using ih(3) inr by (auto simp: mark_visited split: if_splits)
  ultimately show ?case by blast
qed

lemma reducer_frame:
  assumes "reducer s nodes = Inr (nodes', s')"
  shows "marked nodes nodes'" and "subSliceName s' = subSliceName s"
    and "visited (nodes' ! k) \<Longrightarrow> visited (nodes ! k) \<or> k \<in> set (sliceSubSetNodes s)"
proof -
  from assms have inr: "initialNodeIndex s < length nodes"
    by (cases "initialNodeIndex s < length nodes") (simp_all add: reducer_def)
  let ?cur = "nodes ! initialNodeIndex s"
  let ?s1 = "addToReducedSlice s (initialNodeIndex s)"
  from assms inr obtain st where
    run: "reducer_for st (sliceSubSetNodes ?s1) nodes ?s1 = Inr (nodes', s')"
    by (cases "pick_strategy nodes ?cur (neighboursIndices ?cur)") (simp_all add: reducer_def Let_def)
  from reducer_for_frame [OF run] have f: "marked nodes nodes'" "subSliceName s' = subSliceName ?s1"
    "\<forall>k. visited (nodes' ! k) \<longrightarrow> visited (nodes ! k) \<or> k \<in> set (sliceSubSetNodes ?s1)"
    by blast+
  from f(1) show "marked nodes nodes'" .
  from f(2) show "subSliceName s' = subSliceName s" by (simp add: addToReducedSlice_def)
  from f(3) show "visited (nodes' ! k) \<Longrightarrow> visited (nodes ! k) \<or> k \<in> set (sliceSubSetNodes s)"
    by (simp add: addToReducedSlice_def)
qed

lemma visited_labelled_reducer:
  assumes r: "reducer s nodes = Inr (nodes', s')"
    and c: "claimed nodes (sliceSubSetNodes s)" and v: "visited_labelled nodes"
  shows "visited_labelled nodes'"
  unfolding visited_labelled_def
proof (intro allI impI)
  fix k
  assume k: "k < length nodes'" and vis: "visited (nodes' ! k)"
  from reducer_frame(1) [OF r] have m: "length nodes' = length nodes"
    "sliceSubSetName (nodes' ! k) = sliceSubSetName (nodes ! k)"
    by (simp_all add: marked_def)
  from reducer_frame(3) [OF r vis] have "visited (nodes ! k) \<or> k \<in> set (sliceSubSetNodes s)" .
  then have "sliceSubSetName (nodes ! k) \<noteq> []"
    using c v k m(1) by (auto simp: claimed_def visited_labelled_def)
  with m(2) show "sliceSubSetName (nodes' ! k) \<noteq> []" by simp
qed

lemma newSubSlice_frame:
  assumes n: "newSubSlice nodes dict i = Inr (nodes', dict')"
  shows "length nodes' = length nodes"
    and "sliceSubSetName (nodes ! i) = [] \<Longrightarrow> graph_ok nodes \<Longrightarrow> graph_ok nodes'"
    and "sliceSubSetName (nodes ! i) = [] \<Longrightarrow> visited_labelled nodes \<Longrightarrow> visited_labelled nodes'"
proof -
  from n obtain l where l: "map_of dict (sliceName (nodes ! i)) = Some l"
    by (cases "map_of dict (sliceName (nodes ! i))") (simp_all add: newSubSlice_def Let_def)
  from n l obtain r1 where r1: "bfs (SliceSubSet_init (nodes ! i) i (length l)) i nodes = Inr r1"
    by (cases "bfs (SliceSubSet_init (nodes ! i) i (length l)) i nodes")
       (simp_all add: newSubSlice_def Let_def)
  from n l r1 obtain r2 where r2: "reducer (snd r1) (fst r1) = Inr r2"
    by (cases "reducer (snd r1) (fst r1)") (simp_all add: newSubSlice_def Let_def)
  from n l r1 r2 have nodes': "nodes' = fst r2"
    by (cases "appendNewSubSlice dict (snd r2)") (auto simp: newSubSlice_def Let_def)
  from r1 have b: "bfs (SliceSubSet_init (nodes ! i) i (length l)) i nodes = Inr (fst r1, snd r1)"
    by simp
  from r2 have r: "reducer (snd r1) (fst r1) = Inr (fst r2, snd r2)" by simp
  note m = reducer_frame(1) [OF r]
  from bfs_result(2) [OF b] m nodes' show "length nodes' = length nodes"
    by (simp add: marked_def)
  {
    assume un: "sliceSubSetName (nodes ! i) = []" and g: "graph_ok nodes"
    from graph_ok_relabelled [OF bfs_frame(1) [OF b un] g] have "graph_ok (fst r1)" .
    from graph_ok_marked [OF m this] nodes' show "graph_ok nodes'" by simp
  }
  {
    assume un: "sliceSubSetName (nodes ! i) = []" and v: "visited_labelled nodes"
    note f = bfs_frame [OF b un]
    from visited_labelled_relabelled [OF f(1) v] have "visited_labelled (fst r1)" .
    from visited_labelled_reducer [OF r f(3) this] nodes' show "visited_labelled nodes'" by simp
  }
qed

subsection \<open>The partition-and-reduce pass keeps the invariants\<close>

lemma sliceRunner_for_inv:
  "sliceRunner_for idxs nodes dict = Inr (nodes', dict')
     \<Longrightarrow> graph_ok nodes \<Longrightarrow> visited_labelled nodes
     \<Longrightarrow> length nodes' = length nodes \<and> graph_ok nodes' \<and> visited_labelled nodes'"
proof (induction idxs arbitrary: nodes dict)
  case Nil
  then show ?case by simp
next
  case (Cons i rest)
  let ?d1 = "initiateNewSubSlicesList dict (nodes ! i)"
  from Cons.prems(1) have inr: "i < length nodes"
    by (cases "i < length nodes") simp_all
  show ?case
  proof (cases "sliceSubSetName (nodes ! i) = []")
    case False
    with Cons.prems(1) inr have "sliceRunner_for rest nodes ?d1 = Inr (nodes', dict')"
      by (simp add: Let_def)
    from Cons.IH [OF this Cons.prems(2,3)] show ?thesis .
  next
    case True
    show ?thesis
    proof (cases "touches_other_slice nodes (nodes ! i) (neighboursIndices (nodes ! i))")
      case (Inl e)
      with Cons.prems(1) inr True show ?thesis by (simp add: Let_def)
    next
      case (Inr t)
      show ?thesis
      proof (cases t)
        case False
        with Cons.prems(1) inr True Inr have "sliceRunner_for rest nodes ?d1 = Inr (nodes', dict')"
          by (simp add: Let_def)
        from Cons.IH [OF this Cons.prems(2,3)] show ?thesis .
      next
        case t: True
        with Cons.prems(1) inr True Inr obtain r where
          r: "newSubSlice nodes ?d1 i = Inr r"
          and run: "sliceRunner_for rest (fst r) (snd r) = Inr (nodes', dict')"
          by (cases "newSubSlice nodes ?d1 i") (simp_all add: Let_def)
        from r have n: "newSubSlice nodes ?d1 i = Inr (fst r, snd r)" by simp
        note f = newSubSlice_frame [OF n]
        from Cons.IH [OF run f(2) [OF True Cons.prems(2)] f(3) [OF True Cons.prems(3)]] f(1)
        show ?thesis by simp
      qed
    qed
  qed
qed

lemma graph_ok_addNeighbourIndex:
  "graph_ok nodes \<Longrightarrow> a < length nodes \<Longrightarrow> b < length nodes
     \<Longrightarrow> graph_ok (nodes[a := addNeighbourIndex (nodes ! a) b])"
  by (auto simp: graph_ok_def nth_list_update addNeighbourIndex_def)

lemma buildGraph_frame:
  "buildGraph es nodes = Inr nodes'
     \<Longrightarrow> length nodes' = length nodes
         \<and> (graph_ok nodes \<longrightarrow> graph_ok nodes')
         \<and> (\<forall>k. visited (nodes' ! k) = visited (nodes ! k))"
proof (induction es nodes rule: buildGraph.induct)
  case (1 nodes)
  then show ?case by simp
next
  case (2 edge rest nodes)
  let ?n1 = "nodes[fst edge := addNeighbourIndex (nodes ! fst edge) (snd edge)]"
  let ?n2 = "?n1[snd edge := addNeighbourIndex (?n1 ! snd edge) (fst edge)]"
  from "2.prems" have a: "fst edge < length nodes" and b: "snd edge < length ?n1"
    and r: "buildGraph rest ?n2 = Inr nodes'"
    by (auto simp: Let_def split: if_splits)
  from "2.IH" [OF a refl b r] have ih: "length nodes' = length ?n2"
    "graph_ok ?n2 \<longrightarrow> graph_ok nodes'" "\<forall>k. visited (nodes' ! k) = visited (?n2 ! k)"
    by blast+
  from b have b': "snd edge < length nodes" by simp
  have g1: "graph_ok ?n1" if "graph_ok nodes"
    using that a b' by (rule graph_ok_addNeighbourIndex)
  from a have a': "fst edge < length ?n1" by simp
  have g2: "graph_ok ?n2" if "graph_ok nodes"
    using g1 [OF that] b a' by (rule graph_ok_addNeighbourIndex)
  have v: "visited (?n2 ! k) = visited (nodes ! k)" for k
    using a b by (cases "k < length nodes") (auto simp: nth_list_update addNeighbourIndex_def)
  from ih g2 v show ?case by auto
qed

lemma init_invariants:
  assumes "SlicerSoliton_init vs es npNormal = Inr obj0"
  shows "graph_ok (nodesArr obj0)" and "visited_labelled (nodesArr obj0)"
proof -
  let ?n0 = "map (\<lambda>vertex. Node_init vertex npNormal) vs"
  from assms obtain nodes where g: "buildGraph es ?n0 = Inr nodes"
    by (cases "buildGraph es ?n0") (simp_all add: SlicerSoliton_init_def Let_def)
  from assms g have n: "nodesArr obj0 = nodes"
    by (cases "cubeEdgeLengthEval nodes") (auto simp: SlicerSoliton_init_def Let_def)
  have g0: "graph_ok ?n0" by (simp add: graph_ok_def Node_init_def)
  from buildGraph_frame [OF g] g0 have "graph_ok nodes" by blast
  with n show "graph_ok (nodesArr obj0)" by simp
  have "\<not> visited (nodes ! k)" if "k < length nodes" for k
    using buildGraph_frame [OF g] that by (simp add: Node_init_def)
  with n show "visited_labelled (nodesArr obj0)" by (simp add: visited_labelled_def)
qed

lemma slicer_write_fields [simp]:
  "neighboursIndices (slicer_write nodes w ! k) = neighboursIndices (nodes ! k)"
  "visited (slicer_write nodes w ! k) = visited (nodes ! k)"
  "sliceSubSetName (slicer_write nodes w ! k) = sliceSubSetName (nodes ! k)"
  unfolding slicer_write_def nth_setSliceName by (simp_all add: setSliceName_def)

lemma foldl_slicer_write_frame:
  "length (foldl slicer_write nodes ws) = length nodes
   \<and> (\<forall>k. neighboursIndices (foldl slicer_write nodes ws ! k) = neighboursIndices (nodes ! k)
          \<and> visited (foldl slicer_write nodes ws ! k) = visited (nodes ! k)
          \<and> sliceSubSetName (foldl slicer_write nodes ws ! k) = sliceSubSetName (nodes ! k))"
  by (induction ws arbitrary: nodes) simp_all

lemma slicer_runs:
  assumes init: "SlicerSoliton_init vs es npNormal = Inr obj0"
  shows "slicer (setSliceNameBase obj0 nameBase)
           = Inr (setSliceNameBase obj0 nameBase
                    \<lparr>nodesArr := foldl slicer_write (nodesArr obj0)
                                   (classifier_history obj0 nameBase)\<rparr>)"
proof -
  let ?idxs = "sortedNodesIndices obj0"
  note s = init_sorted [OF init]
  note f = init_facts [OF init]
  from s(3) obtain i0 rest where idxs: "?idxs = i0 # rest"
    by (cases ?idxs) auto
  with s(4) have i0: "i0 < length (nodesArr obj0)" by simp
  have inr: "\<forall>i\<in>set ?idxs. i < length (nodesArr obj0)"
    using s(1) f(1) by simp
  from slicer_for_history [OF inr]
  have "slicer_for nameBase (maxRotatedZ obj0) ?idxs (nodesArr obj0) i0 0
          = Inr (foldl slicer_write (nodesArr obj0) (classifier_history obj0 nameBase))"
    using idxs by (simp add: classifier_history_def)
  with idxs i0 show ?thesis
    by (simp add: slicer_def setSliceNameBase_def del: slicer_for.simps)
qed

lemma slicer_invariants:
  assumes init: "SlicerSoliton_init vs es npNormal = Inr obj0"
    and sl: "slicer (setSliceNameBase obj0 nameBase) = Inr obj1"
  shows "graph_ok (nodesArr obj1)" and "visited_labelled (nodesArr obj1)"
    and "length (nodesArr obj1) = length vs"
    and "sortedNodesIndices obj1 = sortedNodesIndices obj0"
    and "subSlicesDict obj1 = []"
proof -
  from slicer_runs [OF init, of nameBase] sl
  have n: "nodesArr obj1 = foldl slicer_write (nodesArr obj0) (classifier_history obj0 nameBase)"
    by auto
  note f = foldl_slicer_write_frame [of "nodesArr obj0" "classifier_history obj0 nameBase"]
  from init_invariants(1) [OF init] f n show "graph_ok (nodesArr obj1)"
    by (simp add: graph_ok_def)
  from init_invariants(2) [OF init] f n show "visited_labelled (nodesArr obj1)"
    by (simp add: visited_labelled_def)
  from f n init_facts(1) [OF init] show "length (nodesArr obj1) = length vs" by simp
  from sl show "sortedNodesIndices obj1 = sortedNodesIndices obj0"
    by (auto simp: slicer_def setSliceNameBase_def split: list.splits if_splits option.splits sum.splits)
  from sl init_facts(6) [OF init] show "subSlicesDict obj1 = []"
    by (auto simp: slicer_def setSliceNameBase_def split: list.splits if_splits option.splits sum.splits)
qed

subsection \<open>A run that passes the constructor raises nothing\<close>

lemma bfs_for_total:
  "\<forall>j\<in>set js. j < length nodes
     \<Longrightarrow> \<exists>nodes' q' s'. bfs_for js nodes q s = Inr (nodes', q', s') \<and> set q' \<subseteq> set q \<union> set js"
proof (induction js arbitrary: nodes q s)
  case Nil
  then show ?case by simp
next
  case (Cons j rest)
  from Cons.prems have inr: "j < length nodes" and rest: "\<forall>j\<in>set rest. j < length nodes"
    by simp_all
  show ?case
  proof (cases "sliceSubSetName (nodes ! j) = [] \<and> sliceName (nodes ! j) = subSliceName s")
    case True
    let ?n1 = "nodes[j := setSliceSubSetName (nodes ! j) (getOwnName s)]"
    from rest have "\<forall>j\<in>set rest. j < length ?n1" by simp
    from Cons.IH [OF this, of "q @ [j]" "addNode s j"] True inr show ?thesis
      by auto
  next
    case False
    with Cons.IH [OF rest, of q s] inr show ?thesis by auto
  qed
qed

lemma bfs_while_total:
  "graph_ok nodes \<Longrightarrow> \<forall>i\<in>set q. i < length nodes \<Longrightarrow> \<exists>r. bfs_while q nodes s = Inr r"
proof (induction q nodes s rule: bfs_while.induct)
  case (1 nodes s)
  then show ?case by simp
next
  case (2 i bfsQueue nodes s)
  from "2.prems"(2) have inr: "i < length nodes" by simp
  with "2.prems"(1) have nb: "\<forall>j\<in>set (neighboursIndices (nodes ! i)). j < length nodes"
    by (simp add: graph_ok_def)
  from bfs_for_total [OF nb, of bfsQueue s] obtain nodes' q' s' where
    r: "bfs_for (neighboursIndices (nodes ! i)) nodes bfsQueue s = Inr (nodes', q', s')"
    and q': "set q' \<subseteq> set bfsQueue \<union> set (neighboursIndices (nodes ! i))"
    by blast
  from bfs_for_frame [OF r] have rl: "relabelled nodes nodes'" by blast
  then have len: "length nodes' = length nodes" by (simp add: relabelled_def)
  from graph_ok_relabelled [OF rl "2.prems"(1)] have g: "graph_ok nodes'" .
  from q' nb "2.prems"(2) len have qr: "\<forall>i\<in>set q'. i < length nodes'" by auto
  from "2.IH" [OF inr r] g qr have "\<exists>r. bfs_while q' nodes' s' = Inr r" by simp
  with inr r show ?case by simp
qed

lemma bfs_total:
  assumes "graph_ok nodes" and "i < length nodes"
  shows "\<exists>r. bfs s i nodes = Inr r"
proof -
  let ?n1 = "nodes[i := setSliceSubSetName (nodes ! i) (nodeSubSetName (addNode s i))]"
  from assms(1) have "graph_ok ?n1"
    by (simp add: graph_ok_def)
  from bfs_while_total [OF this, of "[i]" "addNode s i"] assms(2) show ?thesis
    by (simp add: bfs_def Let_def)
qed

lemma apply_strategy_total: "xs \<noteq> [] \<Longrightarrow> \<exists>r. apply_strategy st xs key = Inr r"
  by (cases st; cases xs) simp_all

lemma reducer_for_total:
  "graph_ok nodes \<Longrightarrow> \<forall>m\<in>set ms. m < length nodes \<Longrightarrow> \<exists>r. reducer_for st ms nodes s = Inr r"
proof (induction ms arbitrary: nodes s)
  case Nil
  then show ?case by simp
next
  case (Cons i rest)
  from Cons.prems(2) have inr: "i < length nodes" and rest: "\<forall>m\<in>set rest. m < length nodes"
    by simp_all
  let ?n1 = "nodes[i := markAsVisited (nodes ! i)]"
  from graph_ok_marked [OF mark_marked Cons.prems(1)] have g1: "graph_ok ?n1" .
  from rest have rest1: "\<forall>m\<in>set rest. m < length ?n1" by simp
  from inr Cons.prems(1) have nb: "\<forall>j\<in>set (neighboursIndices (nodes ! i)). j < length nodes"
    by (simp add: graph_ok_def)
  note c = candidatIndices_filter [OF nb, of "getOwnName s"]
  show ?case
  proof (cases "visited (nodes ! i)")
    case True
    with Cons.IH [OF Cons.prems(1) rest, of s] inr show ?thesis by simp
  next
    case False
    let ?cands = "filter (\<lambda>j. sliceSubSetName (nodes ! j) \<noteq> getOwnName s) (neighboursIndices (nodes ! i))"
    show ?thesis
    proof (cases "?cands = []")
      case True
      with Cons.IH [OF g1 rest1, of s] inr False c show ?thesis by (simp add: Let_def)
    next
      case ne: False
      then have "?cands @ [i] \<noteq> []" by simp
      from apply_strategy_total [OF this] obtain r where
        r: "apply_strategy st (?cands @ [i]) (\<lambda>index. rotatedZ (nodes ! index)) = Inr r"
        by blast
      from Cons.IH [OF g1 rest1, of s] Cons.IH [OF g1 rest1, of "addToReducedSlice s i"]
        inr False c ne r
      show ?thesis by (simp add: Let_def)
    qed
  qed
qed

lemma reducer_total:
  assumes "graph_ok nodes" and "initialNodeIndex s < length nodes"
    and "\<forall>m\<in>set (sliceSubSetNodes s). m < length nodes"
  shows "\<exists>r. reducer s nodes = Inr r"
proof -
  from assms(1,2) have "\<forall>j\<in>set (neighboursIndices (nodes ! initialNodeIndex s)). j < length nodes"
    by (simp add: graph_ok_def)
  from pick_strategy_total [OF this] obtain st where
    "pick_strategy nodes (nodes ! initialNodeIndex s)
       (neighboursIndices (nodes ! initialNodeIndex s)) = Inr st"
    by blast
  with reducer_for_total [OF assms(1), of "sliceSubSetNodes (addToReducedSlice s (initialNodeIndex s))"
      st "addToReducedSlice s (initialNodeIndex s)"] assms(2,3)
  show ?thesis by (simp add: reducer_def Let_def addToReducedSlice_def)
qed

lemma touches_other_slice_total:
  "\<forall>j\<in>set js. j < length nodes \<Longrightarrow> \<exists>b. touches_other_slice nodes cur js = Inr b"
  by (induction js) auto

lemma appendNewSubSlice_total:
  "subSliceName S \<in> fst ` set dict
     \<Longrightarrow> \<exists>d. appendNewSubSlice dict S = Inr d"
proof (induction dict)
  case Nil
  then show ?case by simp
next
  case (Cons entry dict)
  show ?case
  proof (cases "fst entry = subSliceName S")
    case True
    then show ?thesis by simp
  next
    case False
    with Cons.prems have "subSliceName S \<in> fst ` set dict" by auto
    from Cons.IH [OF this] obtain d where "appendNewSubSlice dict S = Inr d" ..
    with False show ?thesis by simp
  qed
qed

lemma initiateNewSubSlicesList_key:
  "sliceName node \<in> fst ` set (initiateNewSubSlicesList dict node)"
  by (auto simp: initiateNewSubSlicesList_def map_of_eq_None_iff split: option.splits
        dest: map_of_SomeD intro: rev_image_eqI)

lemma newSubSlice_total:
  assumes g: "graph_ok nodes" and inr: "i < length nodes"
    and un: "sliceSubSetName (nodes ! i) = []"
    and key: "sliceName (nodes ! i) \<in> fst ` set dict"
  shows "\<exists>r. newSubSlice nodes dict i = Inr r"
proof -
  from key obtain l where l: "map_of dict (sliceName (nodes ! i)) = Some l"
    by (cases "map_of dict (sliceName (nodes ! i))") (auto simp: map_of_eq_None_iff)
  let ?s0 = "SliceSubSet_init (nodes ! i) i (length l)"
  from bfs_total [OF g inr, of ?s0] obtain nodes1 s1 where b: "bfs ?s0 i nodes = Inr (nodes1, s1)"
    by force
  note f = bfs_frame [OF b un]
  from graph_ok_relabelled [OF f(1) g] have g1: "graph_ok nodes1" .
  from f(1) have len: "length nodes1 = length nodes" by (simp add: relabelled_def)
  from bfs_result(1) [OF b] have seed: "initialNodeIndex s1 = i"
    by (auto simp: SliceSubSet_init_def)
  from f(3) have mem: "\<forall>m\<in>set (sliceSubSetNodes s1). m < length nodes1"
    by (simp add: claimed_def)
  from reducer_total [OF g1 _ mem] seed inr len obtain nodes2 s2 where
    r: "reducer s1 nodes1 = Inr (nodes2, s2)"
    by force
  from reducer_frame(2) [OF r] f(2) key have "subSliceName s2 \<in> fst ` set dict" by simp
  from appendNewSubSlice_total [OF this] obtain d where "appendNewSubSlice dict s2 = Inr d" ..
  with l b r show ?thesis by (simp add: newSubSlice_def Let_def)
qed

lemma sliceRunner_for_total:
  "graph_ok nodes \<Longrightarrow> \<forall>i\<in>set idxs. i < length nodes
     \<Longrightarrow> \<exists>r. sliceRunner_for idxs nodes dict = Inr r"
proof (induction idxs arbitrary: nodes dict)
  case Nil
  then show ?case by simp
next
  case (Cons i rest)
  let ?d1 = "initiateNewSubSlicesList dict (nodes ! i)"
  from Cons.prems(2) have inr: "i < length nodes" and rest: "\<forall>i\<in>set rest. i < length nodes"
    by simp_all
  note same = Cons.IH [OF Cons.prems(1) rest, of ?d1]
  show ?case
  proof (cases "sliceSubSetName (nodes ! i) = []")
    case False
    with same inr show ?thesis by (simp add: Let_def)
  next
    case True
    from inr Cons.prems(1) have "\<forall>j\<in>set (neighboursIndices (nodes ! i)). j < length nodes"
      by (simp add: graph_ok_def)
    from touches_other_slice_total [OF this, of "nodes ! i"] obtain t where
      t: "touches_other_slice nodes (nodes ! i) (neighboursIndices (nodes ! i)) = Inr t"
      ..
    show ?thesis
    proof (cases t)
      case False
      with same inr True t show ?thesis by (simp add: Let_def)
    next
      case tt: True
      from newSubSlice_total [OF Cons.prems(1) inr True initiateNewSubSlicesList_key]
      obtain nodes1 d2 where n: "newSubSlice nodes ?d1 i = Inr (nodes1, d2)"
        by force
      note f = newSubSlice_frame [OF n]
      from rest f(1) have "\<forall>i\<in>set rest. i < length nodes1" by simp
      from Cons.IH [OF f(2) [OF True Cons.prems(1)] this, of d2] inr True t tt n
      show ?thesis by (simp add: Let_def)
    qed
  qed
qed

lemma run_total:
  assumes init: "SlicerSoliton_init vs es npNormal = Inr obj0"
  shows "\<exists>obj. run_slicing vs es npNormal nameBase = Inr obj"
proof -
  from slicer_runs [OF init, of nameBase] obtain obj1 where
    sl: "slicer (setSliceNameBase obj0 nameBase) = Inr obj1"
    by blast
  note i = slicer_invariants [OF init sl]
  from init_sorted(1) [OF init] i(3,4) have "\<forall>k\<in>set (sortedNodesIndices obj1). k < length (nodesArr obj1)"
    by simp
  from sliceRunner_for_total [OF i(1) this, of "subSlicesDict obj1"] obtain r where
    "sliceRunner_for (sortedNodesIndices obj1) (nodesArr obj1) (subSlicesDict obj1) = Inr r"
    ..
  with init sl show ?thesis by (simp add: run_slicing_def sliceRunner_def)
qed

section \<open>Claims about the subsets of a run\<close>

text \<open>
  Claim C5. For every input the constructor accepts, the run completes, and every subset
  it stores in the dictionary of subsets has a reduced chain made of members of the
  subset only, which starts with the seed vertex (the \<open>initialNodeIndex\<close> the subset
  was created with).
\<close>

theorem reduced_chain_within_members:
  assumes "SlicerSoliton_init vs es npNormal = Inr obj0"
  shows "\<exists>obj. run_slicing vs es npNormal nameBase = Inr obj
           \<and> (\<forall>entry\<in>set (subSlicesDict obj). \<forall>S\<in>set (snd entry).
                 set (reducedSlice S) \<subseteq> set (sliceSubSetNodes S)
                 \<and> reducedSlice S \<noteq> [] \<and> hd (reducedSlice S) = initialNodeIndex S)"
proof -
  from run_total [OF assms, of nameBase] obtain obj where
    run: "run_slicing vs es npNormal nameBase = Inr obj" ..
  from run_chain_ok [OF run] have
    "\<forall>entry\<in>set (subSlicesDict obj). \<forall>S\<in>set (snd entry).
        set (reducedSlice S) \<subseteq> set (sliceSubSetNodes S)
        \<and> reducedSlice S \<noteq> [] \<and> hd (reducedSlice S) = initialNodeIndex S"
    by blast
  with run show ?thesis by blast
qed

theorem reduced_chain_within_members_witness:
  "run_slicing line3_vertices line3_edges (0, 0, 1) ''slice'' = Inr line3_obj2
   \<and> subSlicesDict line3_obj2 = [(''slice0'', [line3_subset0]), (''slice1'', [line3_subset1])]
   \<and> set (reducedSlice line3_subset0) \<subseteq> set (sliceSubSetNodes line3_subset0)
   \<and> reducedSlice line3_subset0 \<noteq> []
   \<and> hd (reducedSlice line3_subset0) = initialNodeIndex line3_subset0
   \<and> reducedSlice line3_subset0 = [1, 1] \<and> sliceSubSetNodes line3_subset0 = [1, 0]"
proof -
  have d: "subSlicesDict line3_obj2 = [(''slice0'', [line3_subset0]), (''slice1'', [line3_subset1])]"
    by (simp add: line3_obj2_def)
  from reduced_chain_within_members [OF line3_init, of "''slice''"] line3_run
  have "\<forall>entry\<in>set (subSlicesDict line3_obj2). \<forall>S\<in>set (snd entry).
                 set (reducedSlice S) \<subseteq> set (sliceSubSetNodes S)
                 \<and> reducedSlice S \<noteq> [] \<and> hd (reducedSlice S) = initialNodeIndex S"
    by auto
  with d have "set (reducedSlice line3_subset0) \<subseteq> set (sliceSubSetNodes line3_subset0)
         \<and> reducedSlice line3_subset0 \<noteq> []
         \<and> hd (reducedSlice line3_subset0) = initialNodeIndex line3_subset0"
    by simp
  moreover have "reducedSlice line3_subset0 = [1, 1]" "sliceSubSetNodes line3_subset0 = [1, 0]"
    by (simp_all add: line3_subset0_def)
  ultimately show ?thesis using line3_run d by blast
qed

text \<open>
  Claim C10. \<open>sliceRunner\<close> creates a subset for a seed \<open>i\<close> that has no subset label,
  in a node array where every visited vertex has one (every state of a run is such, see
  \<open>slicer_invariants\<close> and \<open>sliceRunner_for_inv\<close>); the subset is filled by \<open>bfs\<close>
  and reduced. When the seed has a candidate and the strategy does not select the seed
  among its candidates followed by itself, the reduced chain holds the seed exactly
  twice: the reducer puts it first, and the member loop appends it again.
\<close>

theorem seed_kept_twice:
  assumes inv: "visited_labelled nodes"
    and guard: "sliceSubSetName (nodes ! i) = []"
    and b: "bfs (SliceSubSet_init seedNode i k) i nodes = Inr (nodes1, s1)"
    and r: "reducer s1 nodes1 = Inr (nodes2, s2)"
    and st: "pick_strategy nodes1 (nodes1 ! i) (neighboursIndices (nodes1 ! i)) = Inr strategy"
    and c: "candidatIndices nodes1 (getOwnName s1) (neighboursIndices (nodes1 ! i)) = Inr cands"
    and ne: "cands \<noteq> []"
    and sel: "apply_strategy strategy (cands @ [i]) (\<lambda>index. rotatedZ (nodes1 ! index))
                = Inr resultIndex"
    and other: "resultIndex \<noteq> i"
  shows "count_list (reducedSlice s2) i = 2 \<and> hd (reducedSlice s2) = i"
proof -
  from bfs_result(4) [OF b] inv guard have unv: "\<not> visited (nodes ! i)"
    by (auto simp: visited_labelled_def)
  from seed_kept_twice_unvisited [OF b r unv st c ne sel other]
  have two: "count_list (reducedSlice s2) i = 2" .
  from bfs_reducer_chain_ok [OF b r] have "hd (reducedSlice s2) = i"
    by (simp add: chain_ok_def)
  with two show ?thesis ..
qed

theorem seed_kept_twice_witness:
  "bfs (SliceSubSet_init (line3_nodes_sliced ! 1) 1 0) 1 line3_nodes_sliced
     = Inr (line3_nodes_bfs, line3_subset0_bfs)
   \<and> reducedSlice line3_subset0 = [1, 1]
   \<and> count_list (reducedSlice line3_subset0) 1 = 2 \<and> hd (reducedSlice line3_subset0) = 1"
proof -
  have inv: "visited_labelled line3_nodes_sliced"
    by (simp add: visited_labelled_def line3_nodes_sliced_def mkNode_def nth_Cons split: nat.splits)
  have guard: "sliceSubSetName (line3_nodes_sliced ! 1) = []"
    by (simp add: line3_nodes_sliced_def mkNode_def)
  have st: "pick_strategy line3_nodes_bfs (line3_nodes_bfs ! 1)
              (neighboursIndices (line3_nodes_bfs ! 1)) = Inr PyMax"
    by (simp add: line3_nodes_bfs_def mkNode_def)
  have c: "candidatIndices line3_nodes_bfs (getOwnName line3_subset0_bfs)
             (neighboursIndices (line3_nodes_bfs ! 1)) = Inr [2]"
    by (simp add: line3_nodes_bfs_def line3_subset0_bfs_def mkNode_def getOwnName_def
          nodeSubSetName_def str_nat_0)
  have ne: "[2 :: nat] \<noteq> []" by simp
  have sel: "apply_strategy PyMax ([2] @ [1]) (\<lambda>index. rotatedZ (line3_nodes_bfs ! index)) = Inr 2"
    by (simp add: line3_nodes_bfs_def mkNode_def)
  have other: "(2 :: nat) \<noteq> 1" by simp
  have "reducedSlice line3_subset0 = [1, 1]"
    by (simp add: line3_subset0_def)
  with seed_kept_twice [OF inv guard line3_bfs line3_reducer st c ne sel other] line3_bfs
  show ?thesis by blast
qed

section \<open>The anchor when a vertex is labelled\<close>

lemma slicer_state_Cons:
  "slicer_state base thr (i # rest) nodes b n =
     (if i < length nodes then
        (if \<bar>rotatedZ (nodes ! b) - rotatedZ (nodes ! i)\<bar> \<le> thr
         then slicer_state base thr rest (slicer_write nodes (i, bandName base n, b)) b n
         else slicer_state base thr rest (slicer_write nodes (i, bandName base (n + 1), b)) i (n + 1))
      else (nodes, b, n))"
  by (simp add: Let_def slicer_write_def)

lemma slicer_state_frame:
  "slicer_state base thr idxs nodes b n = (nodes', b', n')
     \<Longrightarrow> length nodes' = length nodes \<and> (\<forall>k. rotatedZ (nodes' ! k) = rotatedZ (nodes ! k))"
proof (induction idxs arbitrary: nodes b n)
  case Nil
  then show ?case by simp
next
  case (Cons i rest)
  show ?case
  proof (cases "i < length nodes")
    case False
    with Cons.prems show ?thesis by (simp add: slicer_state_Cons del: slicer_state.simps)
  next
    case True
    show ?thesis
    proof (cases "\<bar>rotatedZ (nodes ! b) - rotatedZ (nodes ! i)\<bar> \<le> thr")
      case t: True
      with Cons.prems True have
        "slicer_state base thr rest (slicer_write nodes (i, bandName base n, b)) b n = (nodes', b', n')"
        by (simp add: slicer_state_Cons del: slicer_state.simps)
      from Cons.IH [OF this] show ?thesis by simp
    next
      case f: False
      with Cons.prems True have
        "slicer_state base thr rest (slicer_write nodes (i, bandName base (n + 1), b)) i (n + 1)
           = (nodes', b', n')"
        by (simp add: slicer_state_Cons del: slicer_state.simps)
      from Cons.IH [OF this] show ?thesis by simp
    qed
  qed
qed

text \<open>
  The state is the state of the loop: running \<open>slicer_for\<close> over a list is running it
  over the rest of the list from the state reached after the first part, and the list of
  writes splits in the same way.
\<close>

lemma slicer_for_append:
  "\<forall>i\<in>set pre. i < length nodes
     \<Longrightarrow> slicer_for base thr (pre @ post) nodes b n
           = slicer_for base thr post (fst (slicer_state base thr pre nodes b n))
               (fst (snd (slicer_state base thr pre nodes b n)))
               (snd (snd (slicer_state base thr pre nodes b n)))"
proof (induction pre arbitrary: nodes b n)
  case Nil
  then show ?case by simp
next
  case (Cons i rest)
  have "\<forall>i\<in>set rest. i < length (slicer_write nodes w)" for w
    using Cons.prems by simp
  from Cons.IH [OF this] Cons.prems show ?case
    by (simp add: slicer_for_Cons slicer_state_Cons del: slicer_for.simps slicer_state.simps)
qed

lemma slicer_state_append:
  "\<forall>i\<in>set pre. i < length nodes
     \<Longrightarrow> slicer_state base thr (pre @ post) nodes b n
           = slicer_state base thr post (fst (slicer_state base thr pre nodes b n))
               (fst (snd (slicer_state base thr pre nodes b n)))
               (snd (snd (slicer_state base thr pre nodes b n)))"
proof (induction pre arbitrary: nodes b n)
  case Nil
  then show ?case by simp
next
  case (Cons i rest)
  have "\<forall>i\<in>set rest. i < length (slicer_write nodes w)" for w
    using Cons.prems by simp
  from Cons.IH [OF this] Cons.prems show ?case
    by (simp add: slicer_state_Cons del: slicer_state.simps)
qed

lemma slicer_history_append:
  "\<forall>i\<in>set pre. i < length nodes
     \<Longrightarrow> slicer_history base thr (pre @ post) nodes b n
           = slicer_history base thr pre nodes b n
             @ slicer_history base thr post (fst (slicer_state base thr pre nodes b n))
                 (fst (snd (slicer_state base thr pre nodes b n)))
                 (snd (snd (slicer_state base thr pre nodes b n)))"
proof (induction pre arbitrary: nodes b n)
  case Nil
  then show ?case by simp
next
  case (Cons i rest)
  have "\<forall>i\<in>set rest. i < length (slicer_write nodes w)" for w
    using Cons.prems by simp
  from Cons.IH [OF this] Cons.prems show ?case
    by (simp add: slicer_history_Cons slicer_state_Cons
          del: slicer_history.simps slicer_state.simps)
qed

lemma line3_state_1: "classifier_state line3_obj0 ''slice'' [0] = (slicer_write line3_nodes_init (0, ''slice0'', 0), 0, 0)"
  by (simp add: classifier_state_def line3_obj0_def line3_nodes_init_def mkNode_def
        Let_def bandName_def str_nat_0 slicer_write_def)

lemma line3_state_2:
  "classifier_state line3_obj0 ''slice'' [0, 1]
     = (slicer_write (slicer_write line3_nodes_init (0, ''slice0'', 0)) (1, ''slice0'', 0), 0, 0)"
  by (simp add: classifier_state_def line3_obj0_def line3_nodes_init_def mkNode_def
        Let_def bandName_def str_nat_0 slicer_write_def setSliceName_def)

text \<open>
  Claim C7, as stated, fails for a vertex that opens a band. On the path the classifier
  reaches vertex 2 with vertex 0 as \<open>baseNode\<close>; it labels vertex 2 with \<open>slice1\<close> while
  vertex 0 is still the anchor, and the two projections differ by 3, more than the
  threshold \<open>sqrt 3\<close>.
\<close>

theorem anchor_at_write_counterexample:
  "SlicerSoliton_init line3_vertices line3_edges (0, 0, 1) = Inr line3_obj0
   \<and> slicer (setSliceNameBase line3_obj0 ''slice'') = Inr line3_obj1
   \<and> sortedNodesIndices line3_obj0 = [0, 1] @ 2 # []
   \<and> fst (snd (classifier_state line3_obj0 ''slice'' [0, 1])) = 0
   \<and> classifier_history line3_obj0 ''slice'' ! 2 = (2, ''slice1'', 0)
   \<and> sliceName (nodesArr line3_obj1 ! 2) = ''slice1''
   \<and> maxRotatedZ line3_obj0
       < \<bar>rotatedZ (nodesArr line3_obj0 ! 0) - rotatedZ (nodesArr line3_obj0 ! 2)\<bar>"
proof -
  have "sortedNodesIndices line3_obj0 = [0, 1] @ 2 # []"
    by (simp add: line3_obj0_def)
  moreover have "fst (snd (classifier_state line3_obj0 ''slice'' [0, 1])) = 0"
    by (simp only: line3_state_2 fst_conv snd_conv)
  moreover have "classifier_history line3_obj0 ''slice'' ! 2 = (2, ''slice1'', 0)"
    by (simp add: line3_history)
  moreover have "sliceName (nodesArr line3_obj1 ! 2) = ''slice1''"
    by (simp add: line3_obj1_def line3_nodes_sliced_def mkNode_def)
  moreover have "maxRotatedZ line3_obj0
       < \<bar>rotatedZ (nodesArr line3_obj0 ! 0) - rotatedZ (nodesArr line3_obj0 ! 2)\<bar>"
    using sqrt3_bounds(2) by (simp add: line3_obj0_def line3_nodes_init_def mkNode_def)
  ultimately show ?thesis using line3_init line3_slicer by blast
qed

text \<open>
  Claim C7, amended. Let the classifier reach a vertex \<open>v\<close> with anchor \<open>b1\<close> and band
  index \<open>n1\<close>, and leave it with anchor \<open>b2\<close> and band index \<open>n2\<close> (the first two
  conclusions say that these are the variables of the loop at these two points, the third
  that the list of writes records \<open>b1\<close>). The vertex is labelled with band \<open>n2\<close> and
  keeps that label, and it lies within the threshold of \<open>b2\<close>, the anchor of the band it
  is labelled into. Either it joins the current band, and \<open>b2\<close> is the anchor \<open>b1\<close>
  active when it is labelled; or it opens the next band: then it is farther than the
  threshold from \<open>b1\<close>, and the anchor \<open>b2\<close> is the vertex itself.
\<close>

theorem labelled_within_threshold_of_band_anchor:
  assumes init: "SlicerSoliton_init vs es npNormal = Inr obj0"
    and split: "sortedNodesIndices obj0 = pre @ v # post"
    and before: "classifier_state obj0 nameBase pre = (nodes1, b1, n1)"
    and after: "classifier_state obj0 nameBase (pre @ [v]) = (nodes2, b2, n2)"
  shows "slicer_for nameBase (maxRotatedZ obj0) (sortedNodesIndices obj0) (nodesArr obj0)
           (hd (sortedNodesIndices obj0)) 0
         = slicer_for nameBase (maxRotatedZ obj0) (v # post) nodes1 b1 n1
       \<and> slicer_for nameBase (maxRotatedZ obj0) (sortedNodesIndices obj0) (nodesArr obj0)
           (hd (sortedNodesIndices obj0)) 0
         = slicer_for nameBase (maxRotatedZ obj0) post nodes2 b2 n2
       \<and> classifier_history obj0 nameBase ! length pre = (v, bandName nameBase n2, b1)
       \<and> (\<exists>obj. slicer (setSliceNameBase obj0 nameBase) = Inr obj
                 \<and> sliceName (nodesArr obj ! v) = bandName nameBase n2)
       \<and> \<bar>rotatedZ (nodesArr obj0 ! b2) - rotatedZ (nodesArr obj0 ! v)\<bar> \<le> maxRotatedZ obj0
       \<and> (n2 = n1 \<and> b2 = b1
             \<and> \<bar>rotatedZ (nodesArr obj0 ! b1) - rotatedZ (nodesArr obj0 ! v)\<bar> \<le> maxRotatedZ obj0
           \<or> n2 = n1 + 1 \<and> b2 = v
             \<and> maxRotatedZ obj0 < \<bar>rotatedZ (nodesArr obj0 ! b1) - rotatedZ (nodesArr obj0 ! v)\<bar>)"
proof -
  let ?thr = "maxRotatedZ obj0"
  let ?nodes = "nodesArr obj0"
  let ?H = "classifier_history obj0 nameBase"
  define i0 where "i0 = hd (sortedNodesIndices obj0)"
  note s = init_sorted [OF init]
  note f = init_facts [OF init]
  have inr: "\<forall>i\<in>set (sortedNodesIndices obj0). i < length ?nodes"
    using s(1) f(1) by simp
  with split have pre: "\<forall>i\<in>set pre. i < length ?nodes" and v: "v < length ?nodes"
    and prev: "\<forall>i\<in>set (pre @ [v]). i < length ?nodes"
    by simp_all
  from before have st1: "slicer_state nameBase ?thr pre ?nodes i0 0 = (nodes1, b1, n1)"
    by (simp add: classifier_state_def i0_def)
  from after have st2: "slicer_state nameBase ?thr (pre @ [v]) ?nodes i0 0 = (nodes2, b2, n2)"
    by (simp add: classifier_state_def i0_def)
  from slicer_state_frame [OF st1] have fr: "length nodes1 = length ?nodes"
    "\<And>k. rotatedZ (nodes1 ! k) = rotatedZ (?nodes ! k)"
    by simp_all
  from slicer_state_append [OF pre, of nameBase ?thr "[v]" i0 0] st1 st2
  have step: "slicer_state nameBase ?thr [v] nodes1 b1 n1 = (nodes2, b2, n2)"
    by simp
  have c1: "slicer_for nameBase ?thr (sortedNodesIndices obj0) ?nodes i0 0
              = slicer_for nameBase ?thr (v # post) nodes1 b1 n1"
    using slicer_for_append [OF pre, of nameBase ?thr "v # post" i0 0] split st1
    by (simp del: slicer_for.simps)
  have c2: "slicer_for nameBase ?thr (sortedNodesIndices obj0) ?nodes i0 0
              = slicer_for nameBase ?thr post nodes2 b2 n2"
    using slicer_for_append [OF prev, of nameBase ?thr post i0 0] split st2
    by (simp del: slicer_for.simps)
  have hist: "?H = slicer_history nameBase ?thr pre ?nodes i0 0
                   @ slicer_history nameBase ?thr (v # post) nodes1 b1 n1"
    using slicer_history_append [OF pre, of nameBase ?thr "v # post" i0 0] split st1
    by (simp add: classifier_history_def i0_def del: slicer_history.simps)
  have lpre: "length (slicer_history nameBase ?thr pre ?nodes i0 0) = length pre"
    using slicer_history_indices [OF pre, of nameBase ?thr i0 0] by (metis length_map)
  have v1: "v < length nodes1" using v fr(1) by simp
  show ?thesis
  proof (cases "\<bar>rotatedZ (?nodes ! b1) - rotatedZ (?nodes ! v)\<bar> \<le> ?thr")
    case True
    with step v1 fr(2) have r: "nodes2 = slicer_write nodes1 (v, bandName nameBase n1, b1)"
      "b2 = b1" "n2 = n1"
      by (auto simp: slicer_state_Cons simp del: slicer_state.simps(2))
    from True v1 fr(2) have hd: "slicer_history nameBase ?thr (v # post) nodes1 b1 n1
        = (v, bandName nameBase n1, b1) # slicer_history nameBase ?thr post nodes1 b1 n1"
      by (simp add: slicer_history_Cons del: slicer_history.simps)
    from hist hd lpre r have c3: "?H ! length pre = (v, bandName nameBase n2, b1)"
      by (simp add: nth_append)
    from hist hd have mem: "(v, bandName nameBase n1, b1) \<in> set ?H" by simp
    have c4: "\<exists>obj. slicer (setSliceNameBase obj0 nameBase) = Inr obj
                 \<and> sliceName (nodesArr obj ! v) = bandName nameBase n2"
    proof -
      have "distinct (map fst ?H)"
        using slicer_history_indices [OF inr, of nameBase ?thr i0 0] s(2)
        by (simp add: classifier_history_def i0_def)
      from foldl_slicer_write_label [OF this mem v] r(3) slicer_runs [OF init, of nameBase]
      show ?thesis by simp
    qed
    from c1 c2 c3 c4 True r show ?thesis unfolding i0_def by simp
  next
    case False
    with step v1 fr(2) have r: "nodes2 = slicer_write nodes1 (v, bandName nameBase (n1 + 1), b1)"
      "b2 = v" "n2 = n1 + 1"
      by (auto simp: slicer_state_Cons simp del: slicer_state.simps(2))
    from False v1 fr(2) have hd: "slicer_history nameBase ?thr (v # post) nodes1 b1 n1
        = (v, bandName nameBase (n1 + 1), b1) # slicer_history nameBase ?thr post nodes1 v (n1 + 1)"
      by (simp add: slicer_history_Cons del: slicer_history.simps)
    from hist hd lpre r have c3: "?H ! length pre = (v, bandName nameBase n2, b1)"
      by (simp add: nth_append)
    from hist hd have mem: "(v, bandName nameBase (n1 + 1), b1) \<in> set ?H" by simp
    have c4: "\<exists>obj. slicer (setSliceNameBase obj0 nameBase) = Inr obj
                 \<and> sliceName (nodesArr obj ! v) = bandName nameBase n2"
    proof -
      have "distinct (map fst ?H)"
        using slicer_history_indices [OF inr, of nameBase ?thr i0 0] s(2)
        by (simp add: classifier_history_def i0_def)
      from foldl_slicer_write_label [OF this mem v] r(3) slicer_runs [OF init, of nameBase]
      show ?thesis by simp
    qed
    from c1 c2 c3 c4 False r f(3) show ?thesis unfolding i0_def by simp
  qed
qed

theorem labelled_within_threshold_of_band_anchor_witness:
  "sortedNodesIndices line3_obj0 = [0] @ 1 # [2]
   \<and> classifier_state line3_obj0 ''slice'' [0]
       = (slicer_write line3_nodes_init (0, ''slice0'', 0), 0, 0)
   \<and> classifier_state line3_obj0 ''slice'' ([0] @ [1])
       = (slicer_write (slicer_write line3_nodes_init (0, ''slice0'', 0)) (1, ''slice0'', 0), 0, 0)
   \<and> classifier_history line3_obj0 ''slice'' ! length [0 :: nat] = (1, bandName ''slice'' 0, 0)
   \<and> \<bar>rotatedZ (nodesArr line3_obj0 ! 0) - rotatedZ (nodesArr line3_obj0 ! 1)\<bar>
       \<le> maxRotatedZ line3_obj0
   \<and> rotatedZ (nodesArr line3_obj0 ! 0) = 0 \<and> rotatedZ (nodesArr line3_obj0 ! 1) = 1
   \<and> maxRotatedZ line3_obj0 = sqrt 3"
proof -
  have split: "sortedNodesIndices line3_obj0 = [0] @ 1 # [2]"
    by (simp add: line3_obj0_def)
  have after: "classifier_state line3_obj0 ''slice'' ([0] @ [1])
       = (slicer_write (slicer_write line3_nodes_init (0, ''slice0'', 0)) (1, ''slice0'', 0), 0, 0)"
    using line3_state_2 by simp
  have vals: "rotatedZ (nodesArr line3_obj0 ! 0) = 0" "rotatedZ (nodesArr line3_obj0 ! 1) = 1"
    "maxRotatedZ line3_obj0 = sqrt 3"
    by (simp_all add: line3_obj0_def line3_nodes_init_def mkNode_def)
  from labelled_within_threshold_of_band_anchor [OF line3_init split line3_state_1 after]
  have "classifier_history line3_obj0 ''slice'' ! length [0 :: nat] = (1, bandName ''slice'' 0, 0)"
    and "\<bar>rotatedZ (nodesArr line3_obj0 ! 0) - rotatedZ (nodesArr line3_obj0 ! 1)\<bar>
           \<le> maxRotatedZ line3_obj0"
    by blast+
  with split line3_state_1 after vals show ?thesis by blast
qed

end
